theory Spec2Isabelle
  imports Complex_Main
begin

section \<open>Dense tensor primitives (tensors.hpp)\<close>

text \<open>
  \<^verbatim>\<open>fk::matrix<P>\<close> owns \<^verbatim>\<open>nrows_\<close>, \<^verbatim>\<open>ncols_\<close> and a column-major array
  \<^verbatim>\<open>data_\<close> of \<^verbatim>\<open>nrows_ * ncols_\<close> elements; \<^verbatim>\<open>data(i, j)\<close> is
  \<^verbatim>\<open>&data_[j * nrows() + i]\<close>. The dimensions are natural numbers here: the array is
  allocated with \<^verbatim>\<open>new P[M * N]()\<close>, which has no negative size. \<^verbatim>\<open>fk::vector<P>\<close>
  (\<^verbatim>\<open>size_\<close>, \<^verbatim>\<open>data_\<close>) is a list, its size the length of the list.
\<close>

record 'a matrix =
  nrows :: nat
  ncols :: nat
  data :: "'a list"

text \<open>The class invariant: the array holds \<^verbatim>\<open>nrows() * ncols()\<close> elements.\<close>

definition matrix_ok :: "'a matrix \<Rightarrow> bool" where
  "matrix_ok m = (length (data m) = nrows m * ncols m)"

text \<open>\<^verbatim>\<open>matrix(int M, int N)\<close>: value-initialised (zeroed) storage.\<close>

definition matrix_new :: "nat \<Rightarrow> nat \<Rightarrow> ('a::zero) matrix" where
  "matrix_new M N = \<lparr>nrows = M, ncols = N, data = replicate (M * N) 0\<rparr>"

text \<open>
  \<^verbatim>\<open>operator()(i, j)\<close>, reading and writing. Its assertion \<^verbatim>\<open>i < nrows() && j < ncols()\<close>
  holds at every use below, where both indices are bounded by the loops.
\<close>

definition mat_get :: "'a matrix \<Rightarrow> nat \<Rightarrow> nat \<Rightarrow> 'a" where
  "mat_get m i j = data m ! (j * nrows m + i)"

definition mat_set :: "'a matrix \<Rightarrow> nat \<Rightarrow> nat \<Rightarrow> 'a \<Rightarrow> 'a matrix" where
  "mat_set m i j v = m\<lparr>data := (data m)[j * nrows m + i := v]\<rparr>"

text \<open>
  \<^verbatim>\<open>fk::matrix<P>::transpose()\<close>: a fresh \<^verbatim>\<open>temp(ncols(), nrows())\<close> is filled by
  \<^verbatim>\<open>for j < ncols() for i < nrows(): temp(j, i) = (*this)(i, j)\<close> and then takes the
  place of the matrix.
\<close>

definition matrix_transpose :: "('a::zero) matrix \<Rightarrow> 'a matrix" where
  "matrix_transpose m =
     foldl (\<lambda>temp j. foldl (\<lambda>temp i. mat_set temp j i (mat_get m i j)) temp [0..<nrows m])
       (matrix_new (ncols m) (nrows m)) [0..<ncols m]"

text \<open>
  The comparison operators are compiled per element type: for a floating-point \<^verbatim>\<open>P\<close>
  the branch with the tolerance \<^verbatim>\<open>TOL\<close>
  (\<^verbatim>\<open>std::numeric_limits<P>::epsilon() * 2\<close>), for any other type exact comparison.
  The element type is a parameter of the model; a floating-point type carries its
  machine epsilon, and its arithmetic is taken as exact.
\<close>

datatype 'a element_type = Floating_point 'a | Not_floating_point

definition TOL :: "('a::linordered_idom) \<Rightarrow> 'a" where
  "TOL epsilon = epsilon * 2"

text \<open>The body of both comparison loops: does position \<open>i\<close> make the operator return false?\<close>

definition entries_differ :: "('a::linordered_idom) element_type \<Rightarrow> 'a \<Rightarrow> 'a \<Rightarrow> bool" where
  "entries_differ P x y =
     (case P of
        Floating_point epsilon \<Rightarrow>
          (if \<bar>x\<bar> > TOL epsilon \<and> \<bar>y\<bar> > TOL epsilon
           then \<bar>x - y\<bar> > TOL epsilon else False)
      | Not_floating_point \<Rightarrow> x \<noteq> y)"

text \<open>
  \<^verbatim>\<open>fk::vector<P>::operator==\<close> and \<^verbatim>\<open>fk::matrix<P>::operator==\<close>. Both first return
  true when the two operands are the same object; the loops give the same answer
  there (lemmas \<open>vector_eq_refl\<close>, \<open>matrix_eq_refl\<close>), so the model compares values only.
\<close>

definition vector_eq :: "('a::linordered_idom) element_type \<Rightarrow> 'a list \<Rightarrow> 'a list \<Rightarrow> bool" where
  "vector_eq P a b =
     (if length a \<noteq> length b then False
      else list_all (\<lambda>i. \<not> entries_differ P (a ! i) (b ! i)) [0..<length a])"

definition matrix_eq :: "('a::linordered_idom) element_type \<Rightarrow> 'a matrix \<Rightarrow> 'a matrix \<Rightarrow> bool" where
  "matrix_eq P a b =
     (if nrows a \<noteq> nrows b \<or> ncols a \<noteq> ncols b then False
      else list_all (\<lambda>j. list_all (\<lambda>i. \<not> entries_differ P (mat_get a i j) (mat_get b i j))
                            [0..<nrows a]) [0..<ncols a])"

text \<open>A 2 by 3 matrix of integers, stored column by column.\<close>

definition example_matrix :: "int matrix" where
  "example_matrix = \<lparr>nrows = 2, ncols = 3, data = [1, 2, 3, 4, 5, 6]\<rparr>"

section \<open>The PDE factory (pde.hpp)\<close>

text \<open>The enumeration \<^verbatim>\<open>PDE_opts\<close>, in the order of its declaration.\<close>

datatype PDE_opts =
    continuity_1
  | continuity_2
  | continuity_3
  | continuity_6
  | fokkerplanck_1d_4p1a
  | fokkerplanck_1d_4p2
  | fokkerplanck_1d_4p3
  | fokkerplanck_1d_4p4
  | fokkerplanck_1d_4p5
  | fokkerplanck_2d_complete
  | impurity_3d_A
  | vlasov4
  | vlasov43
  | vlasov5
  | vlasov7
  | vlasov8
  | pde_user

text \<open>
  The classes the factory instantiates, and an instance as the class with the two
  constructor arguments \<^verbatim>\<open>(level, degree)\<close> that \<^verbatim>\<open>std::make_unique\<close> receives.
\<close>

datatype PDE_class =
    PDE_continuity_1d
  | PDE_continuity_2d
  | PDE_continuity_3d
  | PDE_continuity_6d
  | PDE_fokkerplanck_1d_4p1a
  | PDE_fokkerplanck_1d_4p2
  | PDE_fokkerplanck_1d_4p3
  | PDE_fokkerplanck_1d_4p4
  | PDE_fokkerplanck_1d_4p5
  | PDE_fokkerplanck_2d_complete
  | PDE_impurity_3d_A

datatype PDE_instance = make_unique PDE_class int int

text \<open>The \<^verbatim>\<open>default\<close> branch writes a message to \<^verbatim>\<open>std::cout\<close> and calls \<^verbatim>\<open>exit\<close>.\<close>

datatype program_exit = Exit string int

text \<open>
  \<^verbatim>\<open>make_PDE(choice, level, degree)\<close>, case by case in the order of the \<^verbatim>\<open>switch\<close>.
  An \<^verbatim>\<open>enum class\<close> object can hold a value that is none of its enumerators; that
  value is \<open>None\<close> here and reaches the \<^verbatim>\<open>default\<close> branch.
\<close>

fun make_PDE :: "PDE_opts option \<Rightarrow> int \<Rightarrow> int \<Rightarrow> program_exit + PDE_instance" where
  "make_PDE (Some continuity_1) level degree = Inr (make_unique PDE_continuity_1d level degree)"
| "make_PDE (Some continuity_2) level degree = Inr (make_unique PDE_continuity_2d level degree)"
| "make_PDE (Some continuity_3) level degree = Inr (make_unique PDE_continuity_3d level degree)"
| "make_PDE (Some continuity_6) level degree = Inr (make_unique PDE_continuity_6d level degree)"
| "make_PDE (Some fokkerplanck_1d_4p1a) level degree =
     Inr (make_unique PDE_fokkerplanck_1d_4p1a level degree)"
| "make_PDE (Some fokkerplanck_1d_4p2) level degree =
     Inr (make_unique PDE_fokkerplanck_1d_4p2 level degree)"
| "make_PDE (Some fokkerplanck_1d_4p3) level degree =
     Inr (make_unique PDE_fokkerplanck_1d_4p3 level degree)"
| "make_PDE (Some fokkerplanck_1d_4p4) level degree =
     Inr (make_unique PDE_fokkerplanck_1d_4p4 level degree)"
| "make_PDE (Some fokkerplanck_1d_4p5) level degree =
     Inr (make_unique PDE_fokkerplanck_1d_4p5 level degree)"
| "make_PDE (Some fokkerplanck_2d_complete) level degree =
     Inr (make_unique PDE_fokkerplanck_2d_complete level degree)"
| "make_PDE (Some impurity_3d_A) level degree = Inr (make_unique PDE_impurity_3d_A level degree)"
| "make_PDE (Some vlasov4) level degree = Inr (make_unique PDE_continuity_1d level degree)"
| "make_PDE (Some vlasov43) level degree = Inr (make_unique PDE_continuity_1d level degree)"
| "make_PDE (Some vlasov5) level degree = Inr (make_unique PDE_continuity_1d level degree)"
| "make_PDE (Some vlasov7) level degree = Inr (make_unique PDE_continuity_1d level degree)"
| "make_PDE (Some vlasov8) level degree = Inr (make_unique PDE_continuity_1d level degree)"
| "make_PDE (Some pde_user) level degree = Inr (make_unique PDE_continuity_1d level degree)"
| "make_PDE None level degree = Inl (Exit ''Invalid pde choice'' (- 1))"

section \<open>The batch container (batch.cpp)\<close>

text \<open>
  What stops a run: an \<^verbatim>\<open>assert\<close> that fails (named by the text of its condition), the
  \<^verbatim>\<open>std::out_of_range\<close> that \<^verbatim>\<open>std::map::at\<close> throws, the
  \<^verbatim>\<open>std::bad_array_new_length\<close> of an array allocation with a negative size, and an
  access outside a \<^verbatim>\<open>std::vector\<close>, whose behaviour is undefined.
\<close>

datatype error =
    Assertion_failed string
  | Out_of_range
  | Bad_array_new_length
  | Undefined_behaviour

text \<open>
  \<^verbatim>\<open>batch<P>\<close>: the shape shared by all operands, and the array \<^verbatim>\<open>batch_\<close> of
  \<^verbatim>\<open>num_entries_\<close> pointers, \<open>None\<close> for \<^verbatim>\<open>nullptr\<close>. The array is a list, and
  \<^verbatim>\<open>num_entries()\<close> its length. The type \<open>'p\<close> is that of the pointers.
\<close>

record 'p batch =
  batch_nrows :: int
  batch_ncols :: int
  batch_stride :: int
  do_trans :: bool
  batch_list :: "'p option list"

definition num_entries :: "'p batch \<Rightarrow> int" where
  "num_entries b = int (length (batch_list b))"

text \<open>
  The constructor \<^verbatim>\<open>batch(num_entries, nrows, ncols, stride, do_trans)\<close>: the array is
  allocated by the member initialisers, then the four assertions run, then every
  pointer is set to null.
\<close>

definition batch_new :: "int \<Rightarrow> int \<Rightarrow> int \<Rightarrow> int \<Rightarrow> bool \<Rightarrow> error + 'p batch" where
  "batch_new n r c s t =
     (if n < 0 then Inl Bad_array_new_length
      else if \<not> n > 0 then Inl (Assertion_failed ''num_entries > 0'')
      else if \<not> r > 0 then Inl (Assertion_failed ''nrows > 0'')
      else if \<not> c > 0 then Inl (Assertion_failed ''ncols > 0'')
      else if \<not> s > 0 then Inl (Assertion_failed ''stride > 0'')
      else Inr \<lparr>batch_nrows = r, batch_ncols = c, batch_stride = s, do_trans = t,
                batch_list = replicate (nat n) None\<rparr>)"

text \<open>\<^verbatim>\<open>batch<P>::operator()(position)\<close>.\<close>

definition batch_at :: "'p batch \<Rightarrow> int \<Rightarrow> error + 'p option" where
  "batch_at b position =
     (if \<not> position \<ge> 0 then Inl (Assertion_failed ''position >= 0'')
      else if \<not> position < num_entries b then Inl (Assertion_failed ''position < num_entries()'')
      else Inr (batch_list b ! nat position))"

text \<open>\<^verbatim>\<open>batch<P>::is_filled()\<close>.\<close>

definition is_filled :: "'p batch \<Rightarrow> bool" where
  "is_filled b = list_all (\<lambda>ptr. ptr \<noteq> None) (batch_list b)"

text \<open>
  One call of \<^verbatim>\<open>lib_dispatch::gemm\<close>, with its thirteen arguments in order:
  \<^verbatim>\<open>(transa, transb, m, n, k, alpha, A, lda, B, ldb, beta, C, ldc)\<close>.
\<close>

record ('p, 'a) gemm_call =
  gemm_transa :: char
  gemm_transb :: char
  gemm_m :: int
  gemm_n :: int
  gemm_k :: int
  gemm_alpha :: 'a
  gemm_A :: 'p
  gemm_lda :: int
  gemm_B :: 'p
  gemm_ldb :: int
  gemm_beta :: 'a
  gemm_C :: 'p
  gemm_ldc :: int

text \<open>
  The loop of \<^verbatim>\<open>batched_gemm\<close> over the slots \<open>i\<close>, from the arguments that are the
  same in every call. \<^verbatim>\<open>a(i) && b(i) && c(i)\<close> evaluates left to right and stops at
  the first null pointer. The result is the list of the \<^verbatim>\<open>gemm\<close> calls issued, in order.
\<close>

fun gemm_loop ::
  "'p batch \<Rightarrow> 'p batch \<Rightarrow> 'p batch \<Rightarrow> ('p \<Rightarrow> 'p \<Rightarrow> 'p \<Rightarrow> ('p, 'a) gemm_call) \<Rightarrow> int list \<Rightarrow>
   error + ('p, 'a) gemm_call list" where
  "gemm_loop a b c call [] = Inr []"
| "gemm_loop a b c call (i # rest) =
     (case batch_at a i of Inl e \<Rightarrow> Inl e
      | Inr None \<Rightarrow> gemm_loop a b c call rest
      | Inr (Some pa) \<Rightarrow>
     (case batch_at b i of Inl e \<Rightarrow> Inl e
      | Inr None \<Rightarrow> gemm_loop a b c call rest
      | Inr (Some pb) \<Rightarrow>
     (case batch_at c i of Inl e \<Rightarrow> Inl e
      | Inr None \<Rightarrow> gemm_loop a b c call rest
      | Inr (Some pc) \<Rightarrow>
     (case gemm_loop a b c call rest of Inl e \<Rightarrow> Inl e
      | Inr calls \<Rightarrow> Inr (call pa pb pc # calls)))))"

text \<open>\<^verbatim>\<open>batched_gemm(a, b, c, alpha, beta)\<close>.\<close>

definition batched_gemm ::
  "'p batch \<Rightarrow> 'p batch \<Rightarrow> 'p batch \<Rightarrow> 'a \<Rightarrow> 'a \<Rightarrow> error + ('p, 'a) gemm_call list" where
  "batched_gemm a b c alpha beta =
     (if \<not> num_entries a = num_entries b
        then Inl (Assertion_failed ''a.num_entries() == b.num_entries()'')
      else if \<not> num_entries b = num_entries c
        then Inl (Assertion_failed ''b.num_entries() == c.num_entries()'')
      else if \<not> \<not> do_trans c then Inl (Assertion_failed ''!c.get_trans()'')
      else
        let rows_a = (if do_trans a then batch_ncols a else batch_nrows a);
            cols_a = (if do_trans a then batch_nrows a else batch_ncols a);
            rows_b = (if do_trans b then batch_ncols b else batch_nrows b);
            cols_b = (if do_trans b then batch_nrows b else batch_ncols b)
        in
          if \<not> cols_a = rows_b then Inl (Assertion_failed ''cols_a == rows_b'')
          else if \<not> batch_nrows c = rows_a then Inl (Assertion_failed ''c.nrows() == rows_a'')
          else if \<not> batch_ncols c = cols_b then Inl (Assertion_failed ''c.ncols() == cols_b'')
          else
            gemm_loop a b c
              (\<lambda>pa pb pc.
                 \<lparr>gemm_transa = (if do_trans a then CHR ''t'' else CHR ''n''),
                  gemm_transb = (if do_trans b then CHR ''t'' else CHR ''n''),
                  gemm_m = rows_a, gemm_n = cols_b, gemm_k = cols_a,
                  gemm_alpha = alpha, gemm_A = pa, gemm_lda = batch_stride a,
                  gemm_B = pb, gemm_ldb = batch_stride b,
                  gemm_beta = beta, gemm_C = pc, gemm_ldc = batch_stride c\<rparr>)
              [0 .. num_entries a - 1])"

text \<open>
  The precondition of \<^verbatim>\<open>batched_gemm\<close> in the words of the specification: equal
  numbers of entries, \<open>C\<close> not transposed, and shapes that fit after the optional
  transposition of \<open>A\<close> and \<open>B\<close>.
\<close>

definition rows_op :: "'p batch \<Rightarrow> int" where
  "rows_op b = (if do_trans b then batch_ncols b else batch_nrows b)"

definition cols_op :: "'p batch \<Rightarrow> int" where
  "cols_op b = (if do_trans b then batch_nrows b else batch_ncols b)"

definition batched_gemm_precondition :: "'p batch \<Rightarrow> 'p batch \<Rightarrow> 'p batch \<Rightarrow> bool" where
  "batched_gemm_precondition a b c =
     (num_entries a = num_entries b \<and> num_entries b = num_entries c \<and> \<not> do_trans c \<and>
      cols_op a = rows_op b \<and> batch_nrows c = rows_op a \<and> batch_ncols c = cols_op b)"

text \<open>The slots at which all three pointers are set, in increasing order.\<close>

definition ready_slots :: "'p batch \<Rightarrow> 'p batch \<Rightarrow> 'p batch \<Rightarrow> nat list" where
  "ready_slots a b c =
     filter (\<lambda>i. batch_list a ! i \<noteq> None \<and> batch_list b ! i \<noteq> None \<and> batch_list c ! i \<noteq> None)
       [0..<length (batch_list a)]"

text \<open>The \<^verbatim>\<open>gemm\<close> call that the specification expects for slot \<open>i\<close>.\<close>

definition gemm_of_slot ::
  "'p batch \<Rightarrow> 'p batch \<Rightarrow> 'p batch \<Rightarrow> 'a \<Rightarrow> 'a \<Rightarrow> nat \<Rightarrow> ('p, 'a) gemm_call" where
  "gemm_of_slot a b c alpha beta i =
     \<lparr>gemm_transa = (if do_trans a then CHR ''t'' else CHR ''n''),
      gemm_transb = (if do_trans b then CHR ''t'' else CHR ''n''),
      gemm_m = rows_op a, gemm_n = cols_op b, gemm_k = cols_op a,
      gemm_alpha = alpha, gemm_A = the (batch_list a ! i), gemm_lda = batch_stride a,
      gemm_B = the (batch_list b ! i), gemm_ldb = batch_stride b,
      gemm_beta = beta, gemm_C = the (batch_list c ! i), gemm_ldc = batch_stride c\<rparr>"

text \<open>
  Three batches of three slots for a product of a 2 by 2 matrix with the transpose
  of a 3 by 2 matrix; the pointers are addresses. Only slot 0 is assigned in all three.
\<close>

definition example_a :: "nat batch" where
  "example_a = \<lparr>batch_nrows = 2, batch_ncols = 2, batch_stride = 2, do_trans = False,
                 batch_list = [Some 100, None, Some 108]\<rparr>"

definition example_b :: "nat batch" where
  "example_b = \<lparr>batch_nrows = 3, batch_ncols = 2, batch_stride = 3, do_trans = True,
                 batch_list = [Some 200, Some 206, Some 212]\<rparr>"

definition example_c :: "nat batch" where
  "example_c = \<lparr>batch_nrows = 2, batch_ncols = 3, batch_stride = 2, do_trans = False,
                 batch_list = [Some 300, Some 306, None]\<rparr>"

section \<open>Views, PDE descriptor and batch allocation (batch.cpp)\<close>

text \<open>
  A pointer into a buffer is the buffer (of a type \<open>'b\<close> that names buffers) and the
  offset of an element in it.

  Modelled from the spec: the view classes \<^verbatim>\<open>fk::vector<P, mem_type::view>\<close> and
  \<^verbatim>\<open>fk::matrix<P, mem_type::view>\<close> and their constructors are not in the sources
  at hand (only their uses are). A view is a non-owning handle on the storage of
  its owner with its own \<open>(nrows, ncols, stride)\<close>; a view of a vector is a subvector
  or a matrix laid over it; the stride of a window of a matrix is the stride of its
  owner. An owner is described like a view of all of its storage.
\<close>

record 'b vector_view =
  vec_data :: "'b \<times> int"
  vec_size :: int

record 'b matrix_view =
  mat_data :: "'b \<times> int"
  mat_nrows :: int
  mat_ncols :: int
  mat_stride :: int

text \<open>
  Modelled from the spec: \<^verbatim>\<open>fk::vector<P, mem_type::view>(owner, start, stop)\<close>, the
  subvector of the elements \<open>start\<close> to \<open>stop\<close>, both included.
\<close>

definition vector_view_of :: "'b vector_view \<Rightarrow> int \<Rightarrow> int \<Rightarrow> 'b vector_view" where
  "vector_view_of owner start_index stop_index =
     \<lparr>vec_data = (fst (vec_data owner), snd (vec_data owner) + start_index),
      vec_size = stop_index - start_index + 1\<rparr>"

text \<open>
  Modelled from the spec:
  \<^verbatim>\<open>fk::matrix<P, mem_type::view>(vector, num_rows, num_cols, start_index = 0)\<close>, a
  column-major matrix laid over the vector from element \<open>start_index\<close> on, its
  stride the number of rows.
\<close>

definition matrix_view_of_vector ::
  "'b vector_view \<Rightarrow> int \<Rightarrow> int \<Rightarrow> int \<Rightarrow> 'b matrix_view" where
  "matrix_view_of_vector source num_rows num_cols start_index =
     \<lparr>mat_data = (fst (vec_data source), snd (vec_data source) + start_index),
      mat_nrows = num_rows, mat_ncols = num_cols, mat_stride = num_rows\<rparr>"

text \<open>
  Modelled from the spec:
  \<^verbatim>\<open>fk::matrix<P, mem_type::view>(owner, start_row, stop_row, start_col, stop_col)\<close>,
  the window of those rows and columns, bounds included, with the owner's stride.
\<close>

definition matrix_view_of_matrix ::
  "'b matrix_view \<Rightarrow> int \<Rightarrow> int \<Rightarrow> int \<Rightarrow> int \<Rightarrow> 'b matrix_view" where
  "matrix_view_of_matrix owner start_row stop_row start_col stop_col =
     \<lparr>mat_data = (fst (mat_data owner),
                  snd (mat_data owner) + start_col * mat_stride owner + start_row),
      mat_nrows = stop_row - start_row + 1, mat_ncols = stop_col - start_col + 1,
      mat_stride = mat_stride owner\<rparr>"

text \<open>
  Modelled from the spec: what the batching code reads of a \<^verbatim>\<open>PDE<P>\<close> (the class is
  in \<^verbatim>\<open>pde_base.hpp\<close>, not at hand): \<^verbatim>\<open>num_dims\<close>, \<^verbatim>\<open>num_terms\<close>, the degree of
  dimension 0 (\<^verbatim>\<open>get_dimensions()[0].get_degree()\<close>) and the coefficient matrix
  \<^verbatim>\<open>get_coefficients(term, dimension)\<close>.
\<close>

record 'b PDE =
  num_dims :: int
  num_terms :: int
  get_degree :: int
  get_coefficients :: "int \<Rightarrow> int \<Rightarrow> 'b matrix_view"

text \<open>
  \<^verbatim>\<open>std::pow(base, exponent)\<close> of two \<^verbatim>\<open>int\<close>s, converted to \<^verbatim>\<open>int\<close>: the power for
  an exponent that is not negative; for a negative one the quotient \<open>1 / base ^ -exponent\<close>
  truncated, which is 0 unless the base is 1 or -1. The range of \<^verbatim>\<open>int\<close> is not
  modelled, nor the infinite value of a zero base with a negative exponent.
\<close>

definition pow_int :: "int \<Rightarrow> int \<Rightarrow> int" where
  "pow_int base exponent =
     (if 0 \<le> exponent then base ^ nat exponent
      else if base = 1 then 1
      else if base = - 1 then (if even exponent then 1 else - 1)
      else 0)"

text \<open>Running the next step when the previous one did not stop the run.\<close>

definition on_success :: "error + 'a \<Rightarrow> ('a \<Rightarrow> error + 'c) \<Rightarrow> error + 'c" where
  "on_success r f = (case r of Inl e \<Rightarrow> Inl e | Inr v \<Rightarrow> f v)"

text \<open>\<^verbatim>\<open>compute_batch_size(degree, num_dims, dimension)\<close>.\<close>

definition compute_batch_size :: "int \<Rightarrow> int \<Rightarrow> int \<Rightarrow> error + int" where
  "compute_batch_size degree ndims dimension =
     (if \<not> dimension \<ge> 0 then Inl (Assertion_failed ''dimension >= 0'')
      else if \<not> dimension < ndims then Inl (Assertion_failed ''dimension < num_dims'')
      else if \<not> ndims > 0 then Inl (Assertion_failed ''num_dims > 0'')
      else if \<not> degree > 0 then Inl (Assertion_failed ''degree > 0'')
      else if dimension = 0 \<or> dimension = ndims - 1 then Inr 1
      else Inr (pow_int degree (ndims - dimension - 1)))"

text \<open>
  \<^verbatim>\<open>matrix_size_set\<close> (declared in \<^verbatim>\<open>batch.hpp\<close>, not at hand), with the fields in the
  order \<^verbatim>\<open>compute_dimensions\<close> and \<^verbatim>\<open>allocate_batches\<close> use them, and
  \<^verbatim>\<open>compute_dimensions(degree, num_dims, dimension)\<close>.
\<close>

record matrix_size_set =
  rows_a :: int
  cols_a :: int
  rows_b :: int
  cols_b :: int

definition compute_dimensions :: "int \<Rightarrow> int \<Rightarrow> int \<Rightarrow> error + matrix_size_set" where
  "compute_dimensions degree ndims dimension =
     (if \<not> dimension \<ge> 0 then Inl (Assertion_failed ''dimension >= 0'')
      else if \<not> dimension < ndims then Inl (Assertion_failed ''dimension < num_dims'')
      else if \<not> ndims > 0 then Inl (Assertion_failed ''num_dims > 0'')
      else if \<not> degree > 0 then Inl (Assertion_failed ''degree > 0'')
      else if dimension = 0
        then Inr \<lparr>rows_a = degree, cols_a = degree, rows_b = degree,
                  cols_b = pow_int degree (ndims - 1)\<rparr>
      else Inr \<lparr>rows_a = pow_int degree dimension, cols_a = degree, rows_b = degree,
                cols_b = degree\<rparr>)"

text \<open>
  A \<^verbatim>\<open>batch_operands_set<P>\<close> is a \<^verbatim>\<open>std::vector\<close> of batches (the operand lists
  \<open>a\<close>, \<open>b\<close>, \<open>c\<close> of one batched gemm); the batches of a chunk are a \<^verbatim>\<open>std::vector\<close> of
  those, one per dimension. The batches hold pointers into buffers.

  The three batches of an operand set, constructed left to right.
\<close>

type_synonym 'b batch_operands_set = "('b \<times> int) batch list"

definition operands_set ::
  "error + ('b \<times> int) batch \<Rightarrow> error + ('b \<times> int) batch \<Rightarrow> error + ('b \<times> int) batch \<Rightarrow>
   error + 'b batch_operands_set" where
  "operands_set a b c =
     on_success a (\<lambda>a. on_success b (\<lambda>b. on_success c (\<lambda>c. Inr [a, b, c])))"

text \<open>The loop \<^verbatim>\<open>for (int i = 1; i < pde.num_dims; ++i)\<close> of \<^verbatim>\<open>allocate_batches\<close>.\<close>

fun allocate_remaining ::
  "'b PDE \<Rightarrow> int \<Rightarrow> int list \<Rightarrow> 'b batch_operands_set list \<Rightarrow> error + 'b batch_operands_set list" where
  "allocate_remaining pde num_elems [] batches = Inr batches"
| "allocate_remaining pde num_elems (i # rest) batches =
     on_success (compute_batch_size (get_degree pde) (num_dims pde) i) (\<lambda>batch_size.
     let num_gemms = batch_size * num_terms pde * num_elems in
     on_success (compute_dimensions (get_degree pde) (num_dims pde) i) (\<lambda>sizes.
     let stride = mat_stride (get_coefficients pde 0 i) in
     on_success
       (operands_set
          (batch_new num_gemms (rows_a sizes) (cols_a sizes) (rows_a sizes) False)
          (batch_new num_gemms (rows_b sizes) (cols_b sizes) stride True)
          (batch_new num_gemms (rows_a sizes) (rows_b sizes) (rows_a sizes) False))
       (\<lambda>operands. allocate_remaining pde num_elems rest (batches @ [operands]))))"

text \<open>\<^verbatim>\<open>allocate_batches(pde, num_elems)\<close>.\<close>

definition allocate_batches :: "'b PDE \<Rightarrow> int \<Rightarrow> error + 'b batch_operands_set list" where
  "allocate_batches pde num_elems =
     (let degree = get_degree pde;
          num_gemms = num_terms pde * num_elems
      in
        on_success (compute_dimensions degree (num_dims pde) 0) (\<lambda>sizes.
        let stride = mat_stride (get_coefficients pde 0 0) in
        on_success
          (operands_set
             (batch_new num_gemms (rows_a sizes) (cols_a sizes) stride False)
             (batch_new num_gemms (rows_b sizes) (cols_b sizes) (rows_b sizes) False)
             (batch_new num_gemms (rows_a sizes) (cols_b sizes) (rows_a sizes) False))
          (\<lambda>operands. allocate_remaining pde num_elems [1 .. num_dims pde - 1] [operands])))"

section \<open>Assigning operands (batch.cpp)\<close>

text \<open>\<^verbatim>\<open>batch<P>::assign_entry(a, position)\<close>, its assertions in order.\<close>

definition assign_entry ::
  "'b matrix_view \<Rightarrow> int \<Rightarrow> ('b \<times> int) batch \<Rightarrow> error + ('b \<times> int) batch" where
  "assign_entry a position b =
     (if \<not> mat_nrows a = batch_nrows b then Inl (Assertion_failed ''a.nrows() == nrows()'')
      else if \<not> mat_ncols a = batch_ncols b then Inl (Assertion_failed ''a.ncols() == ncols()'')
      else if batch_stride b \<noteq> 1 \<and> \<not> mat_stride a = batch_stride b
        then Inl (Assertion_failed ''a.stride() == get_stride()'')
      else if \<not> position \<ge> 0 then Inl (Assertion_failed ''position >= 0'')
      else if \<not> position < num_entries b then Inl (Assertion_failed ''position < num_entries()'')
      else if \<not> batch_list b ! nat position = None then Inl (Assertion_failed ''!batch_[position]'')
      else Inr (b\<lparr>batch_list := (batch_list b)[nat position := Some (mat_data a)]\<rparr>))"

text \<open>
  The batching functions do nothing but assign operands, in an order that their
  arguments fix, until an assertion fails. What one of them does is the list of its
  steps in order: \<open>Assign d operand a position\<close> is the call
  \<^verbatim>\<open>batches[d][operand].assign_entry(a, position)\<close>, \<open>Fail e\<close> an assertion of the
  function itself (or of a helper) that fails there.
\<close>

datatype 'b event =
    Fail error
  | Assign nat nat "'b matrix_view" int

text \<open>Running the steps on the batches: the run stops at the first failure.\<close>

fun run_events ::
  "'b event list \<Rightarrow> 'b batch_operands_set list \<Rightarrow> error + 'b batch_operands_set list" where
  "run_events [] batches = Inr batches"
| "run_events (Fail e # rest) batches = Inl e"
| "run_events (Assign d operand a position # rest) batches =
     (if \<not> d < length batches then Inl Undefined_behaviour
      else if \<not> operand < length (batches ! d) then Inl Undefined_behaviour
      else
        on_success (assign_entry a position (batches ! d ! operand)) (\<lambda>b.
          run_events rest (batches[d := (batches ! d)[operand := b]])))"

section \<open>The Kronmult batcher (batch.cpp)\<close>

text \<open>
  \<^verbatim>\<open>kron_base(A, x, y, batches[d], batch_offset, degree, num_dims)\<close>: the operator is
  assigned before \<^verbatim>\<open>compute_dimensions\<close> runs its assertions.
\<close>

definition kron_base ::
  "'b matrix_view \<Rightarrow> 'b vector_view \<Rightarrow> 'b vector_view \<Rightarrow> nat \<Rightarrow> int \<Rightarrow> int \<Rightarrow> int \<Rightarrow> 'b event list" where
  "kron_base A x y d batch_offset degree ndims =
     Assign d 0 A batch_offset #
     (case compute_dimensions degree ndims 0 of
        Inl e \<Rightarrow> [Fail e]
      | Inr sizes \<Rightarrow>
          [Assign d 1 (matrix_view_of_vector x (rows_b sizes) (cols_b sizes) 0) batch_offset,
           Assign d 2 (matrix_view_of_vector y (rows_a sizes) (cols_b sizes) 0) batch_offset])"

text \<open>
  \<^verbatim>\<open>A[d]\<close> and \<^verbatim>\<open>work[i]\<close> on a \<^verbatim>\<open>std::vector\<close>: an index outside the vector is
  undefined behaviour.
\<close>

definition element_at :: "'a list \<Rightarrow> int \<Rightarrow> error + 'a" where
  "element_at xs i = (if 0 \<le> i \<and> i < int (length xs) then Inr (xs ! nat i) else Inl Undefined_behaviour)"

text \<open>
  The body of the loop over \<^verbatim>\<open>gemm\<close> for an intermediate dimension: three
  assignments at position \<^verbatim>\<open>batch_offset * num_gemms + gemm\<close>.
\<close>

definition gemm_events ::
  "'b matrix_view list \<Rightarrow> 'b vector_view list \<Rightarrow> int \<Rightarrow> matrix_size_set \<Rightarrow> int \<Rightarrow> int \<Rightarrow> int \<Rightarrow>
   int \<Rightarrow> 'b event list" where
  "gemm_events A work dimension sizes num_gemms offset batch_offset gemm =
     (case element_at work ((dimension - 1) mod 2) of
        Inl e \<Rightarrow> [Fail e]
      | Inr work_in \<Rightarrow>
          Assign (nat dimension) 0
            (matrix_view_of_vector work_in (rows_a sizes) (cols_a sizes) (offset * gemm))
            (batch_offset * num_gemms + gemm) #
     (case element_at A dimension of
        Inl e \<Rightarrow> [Fail e]
      | Inr A_d \<Rightarrow>
          Assign (nat dimension) 1 A_d (batch_offset * num_gemms + gemm) #
     (case element_at work (dimension mod 2) of
        Inl e \<Rightarrow> [Fail e]
      | Inr work_out \<Rightarrow>
          [Assign (nat dimension) 2
             (matrix_view_of_vector work_out (rows_a sizes) (cols_a sizes) (offset * gemm))
             (batch_offset * num_gemms + gemm)])))"

text \<open>The body of the loop over the intermediate dimensions.\<close>

definition dimension_events ::
  "'b matrix_view list \<Rightarrow> 'b vector_view list \<Rightarrow> int \<Rightarrow> int \<Rightarrow> int \<Rightarrow> int \<Rightarrow> 'b event list" where
  "dimension_events A work degree ndims batch_offset dimension =
     (case compute_dimensions degree ndims dimension of
        Inl e \<Rightarrow> [Fail e]
      | Inr sizes \<Rightarrow>
     (case compute_batch_size degree ndims dimension of
        Inl e \<Rightarrow> [Fail e]
      | Inr num_gemms \<Rightarrow>
          let offset = rows_a sizes * cols_a sizes in
          if \<not> offset * num_gemms = pow_int degree ndims
          then [Fail (Assertion_failed ''(offset * num_gemms) == std::pow(degree, pde.num_dims)'')]
          else concat (map (gemm_events A work dimension sizes num_gemms offset batch_offset)
                         [0 .. num_gemms - 1])))"

text \<open>The gemm for the highest dimension.\<close>

definition last_dimension_events ::
  "'b matrix_view list \<Rightarrow> 'b vector_view \<Rightarrow> 'b vector_view list \<Rightarrow> int \<Rightarrow> int \<Rightarrow> int \<Rightarrow> 'b event list" where
  "last_dimension_events A y work degree ndims batch_offset =
     (case compute_dimensions degree ndims (ndims - 1) of
        Inl e \<Rightarrow> [Fail e]
      | Inr sizes \<Rightarrow>
     (case element_at work (ndims mod 2) of
        Inl e \<Rightarrow> [Fail e]
      | Inr work_in \<Rightarrow>
          Assign (nat (ndims - 1)) 0
            (matrix_view_of_vector work_in (rows_a sizes) (cols_a sizes) 0) batch_offset #
     (case element_at A (ndims - 1) of
        Inl e \<Rightarrow> [Fail e]
      | Inr A_last \<Rightarrow>
          [Assign (nat (ndims - 1)) 1 A_last batch_offset,
           Assign (nat (ndims - 1)) 2
             (matrix_view_of_vector y (rows_a sizes) (cols_a sizes) 0) batch_offset])))"

text \<open>
  The two loops of assertions on the matrices of \<open>A\<close>: the first assertion that
  fails, if any.
\<close>

fun check_matrix_sizes :: "'b matrix_view list \<Rightarrow> int \<Rightarrow> error option" where
  "check_matrix_sizes [] degree = None"
| "check_matrix_sizes (matrix # rest) degree =
     (if \<not> mat_nrows matrix = degree then Some (Assertion_failed ''matrix.nrows() == degree'')
      else if \<not> mat_ncols matrix = degree then Some (Assertion_failed ''matrix.ncols() == degree'')
      else check_matrix_sizes rest degree)"

text \<open>
  \<^verbatim>\<open>kronmult_to_batch_sets(A, x, y, work, batches, batch_offset, pde)\<close>: its steps,
  given the number of operand sets in \<^verbatim>\<open>batches\<close>, and the function itself.
\<close>

definition kronmult_events ::
  "'b matrix_view list \<Rightarrow> 'b vector_view \<Rightarrow> 'b vector_view \<Rightarrow> 'b vector_view list \<Rightarrow> int \<Rightarrow> int \<Rightarrow>
   'b PDE \<Rightarrow> 'b event list" where
  "kronmult_events A x y work batches_size batch_offset pde =
     (let degree = get_degree pde;
          result_size = pow_int degree (num_dims pde)
      in
        if \<not> vec_size x = result_size then [Fail (Assertion_failed ''x.size() == result_size'')]
        else if \<not> vec_size y = result_size then [Fail (Assertion_failed ''y.size() == result_size'')]
        else if \<not> int (length work) = min (num_dims pde - 1) 2
          then [Fail (Assertion_failed
                  ''static_cast<int>(work.size()) == std::min(pde.num_dims - 1, 2)'')]
        else if \<not> list_all (\<lambda>vector. vec_size vector = result_size) work
          then [Fail (Assertion_failed ''vector.size() == result_size'')]
        else case check_matrix_sizes A degree of
          Some e \<Rightarrow> [Fail e]
        | None \<Rightarrow>
        if \<not> batches_size = num_dims pde
          then [Fail (Assertion_failed ''static_cast<int>(batches.size()) == pde.num_dims'')]
        else if \<not> batch_offset \<ge> 0 then [Fail (Assertion_failed ''batch_offset >= 0'')]
        else case element_at A 0 of
          Inl e \<Rightarrow> [Fail e]
        | Inr A_0 \<Rightarrow>
        if num_dims pde = 1 then kron_base A_0 x y 0 batch_offset degree (num_dims pde)
        else case element_at work 0 of
          Inl e \<Rightarrow> [Fail e]
        | Inr work_0 \<Rightarrow>
            kron_base A_0 x work_0 0 batch_offset degree (num_dims pde) @
            concat (map (dimension_events A work degree (num_dims pde) batch_offset)
                      [1 .. num_dims pde - 2]) @
            last_dimension_events A y work degree (num_dims pde) batch_offset)"

definition kronmult_to_batch_sets ::
  "'b matrix_view list \<Rightarrow> 'b vector_view \<Rightarrow> 'b vector_view \<Rightarrow> 'b vector_view list \<Rightarrow>
   'b batch_operands_set list \<Rightarrow> int \<Rightarrow> 'b PDE \<Rightarrow> error + 'b batch_operands_set list" where
  "kronmult_to_batch_sets A x y work batches batch_offset pde =
     run_events (kronmult_events A x y work (int (length batches)) batch_offset pde) batches"

section \<open>Reading the steps and the batches\<close>

text \<open>
  The slots \<open>(d, operand, position)\<close> that the assignments among the steps target,
  the operands and positions assigned to one batch, and the failures, each in the
  order of the steps.
\<close>

fun assigned_slots :: "'b event list \<Rightarrow> (nat \<times> nat \<times> int) list" where
  "assigned_slots [] = []"
| "assigned_slots (Fail e # rest) = assigned_slots rest"
| "assigned_slots (Assign d operand a position # rest) =
     (d, operand, position) # assigned_slots rest"

fun assigns_for :: "nat \<Rightarrow> nat \<Rightarrow> 'b event list \<Rightarrow> ('b matrix_view \<times> int) list" where
  "assigns_for d operand [] = []"
| "assigns_for d operand (Fail e # rest) = assigns_for d operand rest"
| "assigns_for d operand (Assign d' operand' a position # rest) =
     (if d' = d \<and> operand' = operand then (a, position) # assigns_for d operand rest
      else assigns_for d operand rest)"

fun failures :: "'b event list \<Rightarrow> error list" where
  "failures [] = []"
| "failures (Fail e # rest) = e # failures rest"
| "failures (Assign d operand a position # rest) = failures rest"

text \<open>The number of pointers of a batch that are set.\<close>

definition assigned_count :: "'p batch \<Rightarrow> nat" where
  "assigned_count b = length (filter (\<lambda>ptr. ptr \<noteq> None) (batch_list b))"

text \<open>
  The number of gemms that \<^verbatim>\<open>batched_gemm\<close> issues for an operand set: the slots at
  which the three operand lists \<open>a\<close>, \<open>b\<close>, \<open>c\<close> all hold a pointer.
\<close>

definition gemm_count :: "'b batch_operands_set \<Rightarrow> nat" where
  "gemm_count operands = length (ready_slots (operands ! 0) (operands ! 1) (operands ! 2))"

text \<open>
  The preconditions that \<^verbatim>\<open>kronmult_to_batch_sets\<close> asserts on entry, and with them
  what its helpers assert or rely on: a positive degree, and an operator for each
  dimension.
\<close>

definition kronmult_precondition ::
  "'b matrix_view list \<Rightarrow> 'b vector_view \<Rightarrow> 'b vector_view \<Rightarrow> 'b vector_view list \<Rightarrow> int \<Rightarrow> int \<Rightarrow>
   'b PDE \<Rightarrow> bool" where
  "kronmult_precondition A x y work batches_size batch_offset pde =
     (0 < get_degree pde \<and>
      vec_size x = get_degree pde ^ nat (num_dims pde) \<and>
      vec_size y = get_degree pde ^ nat (num_dims pde) \<and>
      int (length work) = min (num_dims pde - 1) 2 \<and>
      list_all (\<lambda>vector. vec_size vector = get_degree pde ^ nat (num_dims pde)) work \<and>
      num_dims pde \<le> int (length A) \<and>
      list_all (\<lambda>matrix. mat_nrows matrix = get_degree pde \<and> mat_ncols matrix = get_degree pde) A \<and>
      batches_size = num_dims pde \<and>
      0 \<le> batch_offset)"

text \<open>
  The assertion of \<^verbatim>\<open>assign_entry\<close> that nothing is assigned yet at the position
  (\<^verbatim>\<open>assert(!batch_[position])\<close>), as the failure it raises.
\<close>

definition write_once :: error where
  "write_once = Assertion_failed ''!batch_[position]''"

text \<open>
  The operand \<open>a\<close> passes the shape and stride assertions of a batch; and the call
  \<^verbatim>\<open>batches[d][operand].assign_entry(a, position)\<close> passes every assertion.
\<close>

definition fits :: "'b matrix_view \<Rightarrow> ('b \<times> int) batch \<Rightarrow> bool" where
  "fits a b =
     (mat_nrows a = batch_nrows b \<and> mat_ncols a = batch_ncols b \<and>
      (batch_stride b = 1 \<or> mat_stride a = batch_stride b))"

definition assignable ::
  "'b batch_operands_set list \<Rightarrow> nat \<Rightarrow> nat \<Rightarrow> 'b matrix_view \<times> int \<Rightarrow> bool" where
  "assignable batches d operand call =
     (d < length batches \<and> operand < length (batches ! d) \<and>
      fits (fst call) (batches ! d ! operand) \<and>
      0 \<le> snd call \<and> snd call < num_entries (batches ! d ! operand) \<and>
      batch_list (batches ! d ! operand) ! nat (snd call) = None)"

text \<open>Every pointer of every batch is null, as after allocation.\<close>

definition all_null :: "'b batch_operands_set list \<Rightarrow> bool" where
  "all_null batches =
     list_all (\<lambda>operands. list_all (\<lambda>b. list_all (\<lambda>ptr. ptr = None) (batch_list b)) operands) batches"

text \<open>
  The number of gemms of one coupling and term at a dimension: the value that
  \<^verbatim>\<open>compute_batch_size\<close> returns when its assertions hold.
\<close>

definition num_gemms_at :: "int \<Rightarrow> int \<Rightarrow> int \<Rightarrow> int" where
  "num_gemms_at degree ndims dimension =
     (if dimension = 0 \<or> dimension = ndims - 1 then 1 else degree ^ nat (ndims - dimension - 1))"

text \<open>
  The operand set \<open>d\<close> that \<^verbatim>\<open>allocate_batches(pde, num_elems)\<close> builds when no
  assertion fails: three batches of null pointers, \<open>a\<close>, \<open>b\<close> and \<open>c\<close>, with
  \<^verbatim>\<open>compute_batch_size(d) * num_terms * num_elems\<close> entries each.
\<close>

definition allocated_operands :: "'b PDE \<Rightarrow> int \<Rightarrow> int \<Rightarrow> 'b batch_operands_set" where
  "allocated_operands pde num_elems d =
     (let degree = get_degree pde;
          nulls = replicate
            (nat (num_gemms_at degree (num_dims pde) d * num_terms pde * num_elems)) None
      in
        if d = 0 then
          [\<lparr>batch_nrows = degree, batch_ncols = degree,
            batch_stride = mat_stride (get_coefficients pde 0 0), do_trans = False,
            batch_list = nulls\<rparr>,
           \<lparr>batch_nrows = degree, batch_ncols = degree ^ nat (num_dims pde - 1),
            batch_stride = degree, do_trans = False, batch_list = nulls\<rparr>,
           \<lparr>batch_nrows = degree, batch_ncols = degree ^ nat (num_dims pde - 1),
            batch_stride = degree, do_trans = False, batch_list = nulls\<rparr>]
        else
          [\<lparr>batch_nrows = degree ^ nat d, batch_ncols = degree,
            batch_stride = degree ^ nat d, do_trans = False, batch_list = nulls\<rparr>,
           \<lparr>batch_nrows = degree, batch_ncols = degree,
            batch_stride = mat_stride (get_coefficients pde 0 d), do_trans = True,
            batch_list = nulls\<rparr>,
           \<lparr>batch_nrows = degree ^ nat d, batch_ncols = degree,
            batch_stride = degree ^ nat d, do_trans = False, batch_list = nulls\<rparr>])"

text \<open>When \<^verbatim>\<open>allocate_batches(pde, num_elems)\<close> passes all its assertions.\<close>

definition allocation_ok :: "'b PDE \<Rightarrow> int \<Rightarrow> bool" where
  "allocation_ok pde num_elems =
     (0 < num_dims pde \<and> 0 < get_degree pde \<and> 0 < num_terms pde * num_elems \<and>
      list_all (\<lambda>d. 0 < mat_stride (get_coefficients pde 0 d)) [0 .. num_dims pde - 1])"

text \<open>
  The operators of a coupling have the stride that the batches were allocated with
  (that of the coefficient matrices of term 0), where \<^verbatim>\<open>assign_entry\<close> checks it.
\<close>

definition strides_ok :: "'b matrix_view list \<Rightarrow> 'b PDE \<Rightarrow> bool" where
  "strides_ok A pde =
     list_all (\<lambda>d. mat_stride (A ! nat d) = mat_stride (get_coefficients pde 0 d) \<or>
                   mat_stride (get_coefficients pde 0 d) = 1)
       [0 .. num_dims pde - 1]"

section \<open>Building the batches of a chunk (batch.cpp)\<close>

text \<open>
  The storage that \<^verbatim>\<open>build_batches\<close> takes views of: the coefficient matrix of a term
  and dimension, and the four vectors of the \<^verbatim>\<open>rank_workspace\<close>.
\<close>

datatype buffer =
    Coefficients int int
  | Batch_input
  | Reduction_space
  | Batch_intermediate
  | Unit_vector

text \<open>
  Modelled from the spec: \<^verbatim>\<open>rank_workspace<P>\<close>, \<^verbatim>\<open>element_table\<close>, \<^verbatim>\<open>limits\<close> and
  \<^verbatim>\<open>element_chunk\<close> are declared in headers that are not at hand. Of a workspace
  the code reads the four vectors; of an element table, \<^verbatim>\<open>get_coords(i)\<close> (the levels
  of an element followed by its cells) and \<^verbatim>\<open>size()\<close>. An element chunk maps a row
  element to the range \<^verbatim>\<open>[start, stop]\<close> of its connected elements; it is a
  \<^verbatim>\<open>std::map\<close>, read here as the list of its entries in increasing order of the key,
  the order in which the code iterates over it.
\<close>

record 'b rank_workspace =
  batch_input :: "'b vector_view"
  reduction_space :: "'b vector_view"
  batch_intermediate :: "'b vector_view"
  get_unit_vector :: "'b vector_view"

record element_table =
  get_coords :: "int \<Rightarrow> int list"
  table_size :: int

record limits =
  start :: int
  stop :: int

type_synonym element_chunk = "(int \<times> limits) list"

text \<open>
  Modelled from the spec: \<^verbatim>\<open>num_elements_in_chunk\<close> and \<^verbatim>\<open>max_connected_in_chunk\<close>
  (of \<^verbatim>\<open>chunk.cpp\<close>, not at hand) are the total and the largest number of connectedected
  elements of the rows of the chunk.
\<close>

definition num_elements_in_chunk :: "element_chunk \<Rightarrow> int" where
  "num_elements_in_chunk chunk = sum_list (map (\<lambda>(i, conn). stop conn - start conn + 1) chunk)"

definition max_connected_in_chunk :: "element_chunk \<Rightarrow> int" where
  "max_connected_in_chunk chunk =
     foldl max 0 (map (\<lambda>(i, conn). stop conn - start conn + 1) chunk)"

text \<open>
  Modelled from the spec: \<^verbatim>\<open>get_1d_index(level, cell)\<close> (not at hand) is
  \<open>idx1d(L, C) = C + (L == 0 ? 0 : 2^(L-1))\<close>.
\<close>

definition get_1d_index :: "int \<Rightarrow> int \<Rightarrow> int" where
  "get_1d_index level cell = cell + (if level = 0 then 0 else pow_int 2 (level - 1))"

text \<open>\<^verbatim>\<open>linearize(coords)\<close>: one index per dimension, from the level and the cell.\<close>

definition linearize :: "int list \<Rightarrow> int list" where
  "linearize coords =
     (let n = length coords div 2
      in map (\<lambda>i. get_1d_index (coords ! i) (coords ! (i + n))) [0..<n])"

text \<open>
  The lambda \<^verbatim>\<open>prev_row_elems\<close> of \<^verbatim>\<open>build_batches\<close>: the loop
  \<^verbatim>\<open>for (r = chunk.begin()->first; r < i; ++r) prev_elems += chunk.at(r).stop - chunk.at(r).start + 1\<close>,
  where \<^verbatim>\<open>chunk.at(r)\<close> throws when \<open>r\<close> is not a row of the chunk.
\<close>

fun prev_elems_loop :: "element_chunk \<Rightarrow> int list \<Rightarrow> int \<Rightarrow> error + int" where
  "prev_elems_loop chunk [] prev_elems = Inr prev_elems"
| "prev_elems_loop chunk (r # rest) prev_elems =
     (case map_of chunk r of
        None \<Rightarrow> Inl Out_of_range
      | Some conn \<Rightarrow>
          prev_elems_loop chunk rest (prev_elems + (stop conn - start conn + 1)))"

definition prev_row_elems :: "element_chunk \<Rightarrow> int \<Rightarrow> error + int" where
  "prev_row_elems chunk i =
     (if i = fst (hd chunk) then Inr 0
      else prev_elems_loop chunk [fst (hd chunk) .. i - 1] 0)"

text \<open>
  \<^verbatim>\<open>total_prev_elems\<close> and \<^verbatim>\<open>kron_index\<close> of the row element \<open>i\<close> with its range
  \<open>conn\<close>, the connected element \<open>j\<close> and the term \<open>k\<close>.
\<close>

definition total_prev_elems :: "element_chunk \<Rightarrow> int \<Rightarrow> limits \<Rightarrow> int \<Rightarrow> error + int" where
  "total_prev_elems chunk i conn j =
     on_success (prev_row_elems chunk i) (\<lambda>prev_row_elems. Inr (prev_row_elems + j - start conn))"

definition kron_index :: "element_chunk \<Rightarrow> int \<Rightarrow> int \<Rightarrow> limits \<Rightarrow> int \<Rightarrow> int \<Rightarrow> error + int" where
  "kron_index chunk nterms i conn j k =
     on_success (total_prev_elems chunk i conn j) (\<lambda>total_prev. Inr (k + total_prev * nterms))"

text \<open>The remainder \<^verbatim>\<open>a % b\<close> of C++, of the sign of \<open>a\<close>, for \<open>b\<close> other than 0.\<close>

definition c_rem :: "int \<Rightarrow> int \<Rightarrow> int" where
  "c_rem a b = sgn a * (\<bar>a\<bar> mod \<bar>b\<bar>)"

text \<open>
  The views of one coupling and term: the workspaces for intermediate products,
  and the windows of the operator matrices, pushed from the highest dimension
  down to dimension 0.
\<close>

definition work_views_of :: "'b rank_workspace \<Rightarrow> int \<Rightarrow> int \<Rightarrow> int \<Rightarrow> 'b vector_view list" where
  "work_views_of workspace num_workspaces work_index elem_size =
     (let work_views = replicate (nat num_workspaces)
            (vector_view_of (batch_intermediate workspace) work_index (work_index + elem_size - 1))
      in if num_workspaces = 2
         then work_views[1 := vector_view_of (batch_intermediate workspace) (work_index + elem_size)
                                 (work_index + elem_size * 2 - 1)]
         else work_views)"

definition operator_views_of ::
  "'b PDE \<Rightarrow> int \<Rightarrow> int list \<Rightarrow> int list \<Rightarrow> 'b matrix_view list" where
  "operator_views_of pde k operator_row operator_col =
     map (\<lambda>d. matrix_view_of_matrix (get_coefficients pde k d)
                 (operator_row ! nat d) (operator_row ! nat d + get_degree pde - 1)
                 (operator_col ! nat d) (operator_col ! nat d + get_degree pde - 1))
       (rev [0 .. num_dims pde - 1])"

text \<open>The body of the loop over the terms \<open>k\<close>.\<close>

definition term_events ::
  "'b PDE \<Rightarrow> element_table \<Rightarrow> 'b rank_workspace \<Rightarrow> element_chunk \<Rightarrow> int \<Rightarrow> int \<Rightarrow> limits \<Rightarrow>
   int list \<Rightarrow> int \<Rightarrow> int list \<Rightarrow> int \<Rightarrow> 'b event list" where
  "term_events pde elem_table workspace chunk batches_size i conn operator_row j operator_col k =
     (let degree = get_degree pde;
          elem_size = pow_int degree (num_dims pde);
          num_workspaces = min (num_dims pde - 1) 2
      in
        case total_prev_elems chunk i conn j of
          Inl e \<Rightarrow> [Fail e]
        | Inr total_prev \<Rightarrow>
            let kron_index_value = k + total_prev * num_terms pde;
                y_index = elem_size * kron_index_value;
                y_view = vector_view_of (reduction_space workspace) y_index (y_index + elem_size - 1);
                work_index = elem_size * kron_index_value * min (num_dims pde - 1) 2;
                work_views = work_views_of workspace num_workspaces work_index elem_size;
                operator_views = operator_views_of pde k operator_row operator_col
            in
              if table_size elem_table = 0 then [Fail Undefined_behaviour]
              else
                let x_index = c_rem total_prev (table_size elem_table) * elem_size;
                    x_view = vector_view_of (batch_input workspace) x_index (x_index + elem_size - 1)
                in kronmult_events operator_views x_view y_view work_views batches_size
                     kron_index_value pde)"

text \<open>The body of the loop over the connected elements \<open>j\<close>.\<close>

definition connected_events ::
  "'b PDE \<Rightarrow> element_table \<Rightarrow> 'b rank_workspace \<Rightarrow> element_chunk \<Rightarrow> int \<Rightarrow> int \<Rightarrow> limits \<Rightarrow>
   int list \<Rightarrow> int \<Rightarrow> 'b event list" where
  "connected_events pde elem_table workspace chunk batches_size i conn operator_row j =
     (let coords = get_coords elem_table j in
      if \<not> int (length coords) = num_dims pde * 2
      then [Fail (Assertion_failed ''coords.size() == pde.num_dims * 2'')]
      else
        let connected_indices = linearize coords;
            operator_col = map (\<lambda>d. connected_indices ! d * get_degree pde) [0..<nat (num_dims pde)]
        in concat (map (term_events pde elem_table workspace chunk batches_size i conn
                          operator_row j operator_col)
                     [0 .. num_terms pde - 1]))"

text \<open>The body of the loop over the rows \<open>(i, conn)\<close> of the chunk.\<close>

definition row_events ::
  "'b PDE \<Rightarrow> element_table \<Rightarrow> 'b rank_workspace \<Rightarrow> element_chunk \<Rightarrow> int \<Rightarrow> int \<times> limits \<Rightarrow>
   'b event list" where
  "row_events pde elem_table workspace chunk batches_size row =
     (let i = fst row; conn = snd row;
          coords = get_coords elem_table i
      in
        if \<not> int (length coords) = num_dims pde * 2
        then [Fail (Assertion_failed ''coords.size() == pde.num_dims * 2'')]
        else
          let elem_indices = linearize coords;
              operator_row = map (\<lambda>d. elem_indices ! d * get_degree pde) [0..<nat (num_dims pde)]
          in concat (map (connected_events pde elem_table workspace chunk batches_size i conn
                            operator_row)
                       [start conn .. stop conn]))"

text \<open>
  The steps of the three nested loops of \<^verbatim>\<open>build_batches\<close>, and the function:
  its assertions on the workspace, the allocation, and the loops on the fresh
  batches.
\<close>

definition build_events ::
  "'b PDE \<Rightarrow> element_table \<Rightarrow> 'b rank_workspace \<Rightarrow> element_chunk \<Rightarrow> int \<Rightarrow> 'b event list" where
  "build_events pde elem_table workspace chunk batches_size =
     concat (map (row_events pde elem_table workspace chunk batches_size) chunk)"

definition build_batches ::
  "'b PDE \<Rightarrow> element_table \<Rightarrow> 'b rank_workspace \<Rightarrow> element_chunk \<Rightarrow>
   error + 'b batch_operands_set list" where
  "build_batches pde elem_table workspace chunk =
     (let degree = get_degree pde;
          elem_size = pow_int degree (num_dims pde);
          x_size = int (length chunk)
      in
        if \<not> vec_size (batch_input workspace) \<ge> x_size
          then Inl (Assertion_failed ''workspace.batch_input.size() >= x_size'')
        else
          let elements_in_chunk = num_elements_in_chunk chunk in
          if \<not> vec_size (reduction_space workspace) \<ge> elem_size * elements_in_chunk * num_terms pde
            then Inl (Assertion_failed
               ''workspace.reduction_space.size() >= (elem_size * elements_in_chunk * pde.num_terms)'')
          else
            let num_workspaces = min (num_dims pde - 1) 2 in
            if \<not> vec_size (batch_intermediate workspace) =
                   vec_size (reduction_space workspace) * num_workspaces
              then Inl (Assertion_failed
                 ''workspace.batch_intermediate.size() == workspace.reduction_space.size() * num_workspaces'')
            else
              let max_connected = max_connected_in_chunk chunk;
                  max_items_to_reduce = num_terms pde * max_connected
              in
                if \<not> vec_size (get_unit_vector workspace) \<ge> max_items_to_reduce
                  then Inl (Assertion_failed
                     ''workspace.get_unit_vector().size() >= max_items_to_reduce'')
                else
                  on_success (allocate_batches pde elements_in_chunk) (\<lambda>batches.
                    run_events (build_events pde elem_table workspace chunk (int (length batches)))
                      batches))"

text \<open>
  The triples \<open>(i, conn, j, k)\<close> of a chunk for a number of terms: a row of the
  chunk, a connected element in its range, and a term.
\<close>

definition chunk_triples :: "element_chunk \<Rightarrow> int \<Rightarrow> (int \<times> limits \<times> int \<times> int) set" where
  "chunk_triples chunk nterms =
     {(i, conn, j, k). (i, conn) \<in> set chunk \<and>
        start conn \<le> j \<and> j \<le> stop conn \<and> 0 \<le> k \<and> k < nterms}"

text \<open>
  A well-formed chunk: the keys of the \<^verbatim>\<open>std::map\<close> increase strictly, and no row
  has a range of negative length.
\<close>

definition chunk_ok :: "element_chunk \<Rightarrow> bool" where
  "chunk_ok chunk =
     (sorted_wrt (\<lambda>i i'. i < i') (map fst chunk) \<and>
      list_all (\<lambda>(i, conn). start conn \<le> stop conn + 1) chunk)"

text \<open>
  The number of connected elements of row \<open>r\<close> of a chunk (0 for an element that is
  not a row of the chunk).
\<close>

definition row_count :: "element_chunk \<Rightarrow> int \<Rightarrow> int" where
  "row_count chunk r = (case map_of chunk r of None \<Rightarrow> 0 | Some conn \<Rightarrow> stop conn - start conn + 1)"

text \<open>
  Positions in a batch that are pairwise different and each of the form
  \<open>n * G + g\<close> with \<open>0 \<le> g < G\<close>, where \<open>n\<close> is the \<^verbatim>\<open>kron_index\<close> of a triple of \<open>S\<close>.
\<close>

definition tagged ::
  "element_chunk \<Rightarrow> int \<Rightarrow> int \<Rightarrow> (int \<times> limits \<times> int \<times> int) set \<Rightarrow> int list \<Rightarrow> bool" where
  "tagged chunk nterms G S ps =
     (distinct ps \<and>
      (\<forall>p \<in> set ps. \<exists>(i, conn, j, k) \<in> S. \<exists>n g.
          kron_index chunk nterms i conn j k = Inr n \<and> 0 \<le> g \<and> g < G \<and> p = n * G + g))"

section \<open>Example data\<close>

text \<open>
  A PDE with \<open>D\<close> dimensions, \<open>T\<close> terms and the given degree, whose coefficient
  matrices have side and stride \<open>4 * degree\<close> (level 2); a vector of a buffer; the
  operators of one coupling, as windows of the coefficient matrices of term 0.
\<close>

definition example_pde :: "int \<Rightarrow> int \<Rightarrow> int \<Rightarrow> buffer PDE" where
  "example_pde D T degree =
     \<lparr>num_dims = D, num_terms = T, get_degree = degree,
      get_coefficients = (\<lambda>k d. \<lparr>mat_data = (Coefficients k d, 0), mat_nrows = 4 * degree,
                                    mat_ncols = 4 * degree, mat_stride = 4 * degree\<rparr>)\<rparr>"

definition example_vector :: "buffer \<Rightarrow> int \<Rightarrow> int \<Rightarrow> buffer vector_view" where
  "example_vector b offset n = \<lparr>vec_data = (b, offset), vec_size = n\<rparr>"

definition example_operators :: "int \<Rightarrow> int \<Rightarrow> buffer matrix_view list" where
  "example_operators D degree =
     map (\<lambda>d. matrix_view_of_matrix (get_coefficients (example_pde D 1 degree) 0 d)
                 0 (degree - 1) degree (2 * degree - 1))
       [0 .. D - 1]"

text \<open>
  A chunk of two rows with three and two connected elements, on the sparse grid of
  level 1 in two dimensions (three elements), and a workspace for it with two terms
  and degree 2.
\<close>

definition example_table :: element_table where
  "example_table =
     \<lparr>get_coords = (\<lambda>i. if i = 0 then [0, 0, 0, 0] else if i = 1 then [0, 1, 0, 0]
                         else if i = 2 then [1, 0, 0, 0] else []),
      table_size = 3\<rparr>"

definition example_chunk :: element_chunk where
  "example_chunk = [(0, \<lparr>start = 0, stop = 2\<rparr>), (1, \<lparr>start = 0, stop = 1\<rparr>)]"

definition example_workspace :: "buffer rank_workspace" where
  "example_workspace =
     \<lparr>batch_input = example_vector Batch_input 0 12,
      reduction_space = example_vector Reduction_space 0 40,
      batch_intermediate = example_vector Batch_intermediate 0 40,
      get_unit_vector = example_vector Unit_vector 0 6\<rparr>"

section \<open>Legendre polynomials on a domain (quadrature.cpp)\<close>

text \<open>
  \<^verbatim>\<open>legendre(domain, degree)\<close> is compiled for a floating-point \<^verbatim>\<open>P\<close> only. Its
  elements are real numbers here and its arithmetic is taken as exact; \<^verbatim>\<open>degree\<close>
  is the \<^verbatim>\<open>int\<close> of the source, the loop counters and the row and column
  indices, which are never negative in this function, are natural numbers.
\<close>

subsection \<open>The tensor operations used\<close>

text \<open>
  \<^verbatim>\<open>fk::matrix<P>::update_col(col_idx, v)\<close>, for \<^verbatim>\<open>fk::vector\<close> and for
  \<^verbatim>\<open>std::vector\<close> alike: two assertions, then \<^verbatim>\<open>v.size()\<close> elements are copied to
  \<^verbatim>\<open>data(0, col_idx)\<close> onwards with stride 1 (\<^verbatim>\<open>dcopy_\<close>, \<^verbatim>\<open>scopy_\<close> or the loop
  \<^verbatim>\<open>(*this)(0 + i, col_idx) = v(i)\<close>).
\<close>

definition update_col :: "'a matrix \<Rightarrow> nat \<Rightarrow> 'a list \<Rightarrow> error + 'a matrix" where
  "update_col m col_idx v =
     (if \<not> nrows m = length v
      then Inl (Assertion_failed ''nrows() == static_cast<int>(v.size())'')
      else if \<not> col_idx < ncols m then Inl (Assertion_failed ''col_idx < ncols()'')
      else Inr (foldl (\<lambda>m i. mat_set m i col_idx (v ! i)) m [0..<length v]))"

text \<open>
  \<^verbatim>\<open>fk::matrix<P>::update_row(row_idx, v)\<close>: the same with stride \<^verbatim>\<open>nrows()\<close> from
  \<^verbatim>\<open>data(row_idx, 0)\<close>, that is \<^verbatim>\<open>(*this)(row_idx, 0 + i) = v(i)\<close>.
\<close>

definition update_row :: "'a matrix \<Rightarrow> nat \<Rightarrow> 'a list \<Rightarrow> error + 'a matrix" where
  "update_row m row_idx v =
     (if \<not> ncols m = length v
      then Inl (Assertion_failed ''ncols() == static_cast<int>(v.size())'')
      else if \<not> row_idx < nrows m then Inl (Assertion_failed ''row_idx < nrows()'')
      else Inr (foldl (\<lambda>m i. mat_set m row_idx i (v ! i)) m [0..<length v]))"

text \<open>
  \<^verbatim>\<open>fk::matrix<P>::extract_submatrix(row_idx, col_idx, num_rows, num_cols)\<close>. The
  assertions \<^verbatim>\<open>row_idx >= 0\<close> and \<^verbatim>\<open>col_idx >= 0\<close> hold for natural numbers.
\<close>

definition extract_submatrix ::
  "('a::zero) matrix \<Rightarrow> nat \<Rightarrow> nat \<Rightarrow> nat \<Rightarrow> nat \<Rightarrow> error + 'a matrix" where
  "extract_submatrix m row_idx col_idx num_rows num_cols =
     (if \<not> row_idx + num_rows \<le> nrows m
      then Inl (Assertion_failed ''row_idx + num_rows <= nrows()'')
      else if \<not> col_idx + num_cols \<le> ncols m
      then Inl (Assertion_failed ''col_idx + num_cols <= ncols()'')
      else Inr (foldl (\<lambda>submatrix i.
                  foldl (\<lambda>submatrix j. mat_set submatrix i j (mat_get m (i + row_idx) (j + col_idx)))
                    submatrix [0..<num_cols])
                (matrix_new num_rows num_cols) [0..<num_rows]))"

text \<open>
  Modelled from the spec: the conversion of a matrix to an \<^verbatim>\<open>fk::vector\<close>, which
  \<^verbatim>\<open>legendre\<close> applies to the one-column result of \<^verbatim>\<open>extract_submatrix\<close>, is not
  declared in the header of this tree. The vector holds the elements of the matrix
  in storage order (column-major storage), for one column the column itself.
\<close>

definition vector_of_matrix :: "'a matrix \<Rightarrow> 'a list" where
  "vector_of_matrix m = data m"

text \<open>
  \<^verbatim>\<open>fk::vector<P>::operator+\<close> and \<^verbatim>\<open>operator-\<close>: an assertion on the sizes, then
  the loop over the elements.
\<close>

definition vector_plus :: "real list \<Rightarrow> real list \<Rightarrow> error + real list" where
  "vector_plus left right =
     (if \<not> length left = length right then Inl (Assertion_failed ''size() == right.size()'')
      else Inr (map (\<lambda>i. left ! i + right ! i) [0..<length left]))"

definition vector_minus :: "real list \<Rightarrow> real list \<Rightarrow> error + real list" where
  "vector_minus left right =
     (if \<not> length left = length right then Inl (Assertion_failed ''size() == right.size()'')
      else Inr (map (\<lambda>i. left ! i - right ! i) [0..<length left]))"

text \<open>
  Modelled from the spec: the product of a vector and a scalar of the element type
  is not declared in the header of this tree. By the contract of the tensors
  (``Arithmetic (+, -, scalar *) allocates a fresh result'') it is the vector of the
  products.
\<close>

definition vector_times :: "real list \<Rightarrow> real \<Rightarrow> real list" where
  "vector_times v right = map (\<lambda>x. x * right) v"

text \<open>
  \<^verbatim>\<open>fk::matrix<P>::operator*(int const right)\<close>, the only product of a matrix and a
  scalar that the header declares:
  \<^verbatim>\<open>for j < ncols() for i < nrows(): ans(i, j) = (*this)(i, j) * right\<close> on a fresh
  \<^verbatim>\<open>ans(nrows(), ncols())\<close>. The scalar is an \<^verbatim>\<open>int\<close>.
\<close>

definition matrix_times :: "real matrix \<Rightarrow> int \<Rightarrow> real matrix" where
  "matrix_times m right =
     foldl (\<lambda>ans j. foldl (\<lambda>ans i. mat_set ans i j (mat_get m i j * real_of_int right)) ans
                        [0..<nrows m])
       (matrix_new (nrows m) (ncols m)) [0..<ncols m]"

text \<open>
  The implicit conversion of a floating-point value to \<^verbatim>\<open>int\<close>, applied where a value
  of type \<^verbatim>\<open>P\<close> is passed for an \<^verbatim>\<open>int const\<close> parameter: the fractional part is
  discarded. (Outside the range of \<^verbatim>\<open>int\<close> the conversion is undefined; the only value
  converted below is \<^verbatim>\<open>std::sqrt(2.0)\<close>.)
\<close>

definition int_of_floating :: "real \<Rightarrow> int" where
  "int_of_floating x = (if 0 \<le> x then \<lfloor>x\<rfloor> else \<lceil>x\<rceil>)"

text \<open>
  \<^verbatim>\<open>std::transform(domain.begin(), domain.end(), v.begin(), product.begin(),
  std::multiplies<P>())\<close> into a \<^verbatim>\<open>product\<close> of \<^verbatim>\<open>domain.size()\<close> elements.
\<close>

definition elementwise_product :: "real list \<Rightarrow> real list \<Rightarrow> real list" where
  "elementwise_product domain v = map (\<lambda>i. domain ! i * v ! i) [0..<length domain]"

text \<open>
  Modelled from the spec: \<^verbatim>\<open>find\<close> of \<^verbatim>\<open>matlab_utilities.hpp\<close> is not in this tree. It
  returns, in increasing order, the indices of the elements that satisfy the
  predicate; \<^verbatim>\<open>legendre\<close> uses them as row indices (``zeroed outside [-1,1]'').
\<close>

definition find_indices :: "'a list \<Rightarrow> ('a \<Rightarrow> bool) \<Rightarrow> nat list" where
  "find_indices v pred = filter (\<lambda>i. pred (v ! i)) [0..<length v]"

subsection \<open>The stages of \<^verbatim>\<open>legendre\<close>\<close>

text \<open>
  The allocation of the two zeroed matrices, column 0 of the values and, for
  \<^verbatim>\<open>degree >= 2\<close>, column 1 of both.
\<close>

definition initial_columns :: "real list \<Rightarrow> int \<Rightarrow> error + real matrix \<times> real matrix" where
  "initial_columns domain degree =
     (let legendre_values = matrix_new (length domain) (nat (max 1 degree));
          legendre_prime = matrix_new (length domain) (nat (max 1 degree))
      in on_success (update_col legendre_values 0 (replicate (length domain) 1))
           (\<lambda>legendre_values.
         if degree \<ge> 2
         then on_success (update_col legendre_values 1 domain) (\<lambda>legendre_values.
              on_success (update_col legendre_prime 1 (replicate (length domain) 1))
                (\<lambda>legendre_prime. Inr (legendre_values, legendre_prime)))
         else Inr (legendre_values, legendre_prime)))"

text \<open>
  The loop \<^verbatim>\<open>for (int i = 0; i < (degree - 2); ++i)\<close> that sets the remaining columns.
  Its state: the two matrices and the vectors \<^verbatim>\<open>legendre_order\<close>,
  \<^verbatim>\<open>legendre_prime_order\<close>, \<^verbatim>\<open>legendre_n_1\<close>, \<^verbatim>\<open>legendre_prime_n_1\<close>.
\<close>

type_synonym legendre_state =
  "real matrix \<times> real matrix \<times> real list \<times> real list \<times> real list \<times> real list"

definition remaining_step :: "real list \<Rightarrow> legendre_state \<Rightarrow> nat \<Rightarrow> error + legendre_state" where
  "remaining_step domain state i =
     (case state of
        (legendre_values, legendre_prime, legendre_order, legendre_prime_order,
         legendre_n_1, legendre_prime_n_1) \<Rightarrow>
     let n = i + 1;
         column_index = i + 2;
         product = elementwise_product domain legendre_order;
         factor = 1 / (real n + 1)
     in on_success (vector_minus (vector_times product (2 * real n + 1))
                                 (vector_times legendre_n_1 (real n))) (\<lambda>legendre_col.
        let legendre_col = vector_times legendre_col factor
        in on_success (update_col legendre_values column_index legendre_col) (\<lambda>legendre_values.
        let product = elementwise_product domain legendre_prime_order
        in on_success (vector_plus product legendre_order) (\<lambda>sum_order.
           on_success (vector_minus (vector_times sum_order (2 * real n + 1))
                                    (vector_times legendre_prime_n_1 (real n)))
             (\<lambda>legendre_prime_col.
        let legendre_prime_col = vector_times legendre_prime_col factor
        in on_success (update_col legendre_prime column_index legendre_prime_col)
             (\<lambda>legendre_prime.
           Inr (legendre_values, legendre_prime, legendre_col, legendre_prime_col,
                legendre_order, legendre_prime_order)))))))"

fun remaining_loop :: "real list \<Rightarrow> legendre_state \<Rightarrow> nat list \<Rightarrow> error + legendre_state" where
  "remaining_loop domain state [] = Inr state"
| "remaining_loop domain state (i # rest) =
     on_success (remaining_step domain state i) (\<lambda>state. remaining_loop domain state rest)"

definition remaining_columns ::
  "real list \<Rightarrow> int \<Rightarrow> real matrix \<times> real matrix \<Rightarrow> error + real matrix \<times> real matrix" where
  "remaining_columns domain degree matrices =
     (case matrices of (legendre_values, legendre_prime) \<Rightarrow>
      if degree \<ge> 3
      then on_success (extract_submatrix legendre_values 0 1 (length domain) 1)
             (\<lambda>legendre_order.
           on_success (extract_submatrix legendre_prime 0 1 (length domain) 1)
             (\<lambda>legendre_prime_order.
           on_success (extract_submatrix legendre_values 0 0 (length domain) 1)
             (\<lambda>legendre_n_1.
           on_success (extract_submatrix legendre_prime 0 0 (length domain) 1)
             (\<lambda>legendre_prime_n_1.
           on_success
             (remaining_loop domain
                (legendre_values, legendre_prime, vector_of_matrix legendre_order,
                 vector_of_matrix legendre_prime_order, vector_of_matrix legendre_n_1,
                 vector_of_matrix legendre_prime_n_1)
                [0..<nat (degree - 2)])
             (\<lambda>state. Inr (fst state, fst (snd state)))))))
      else Inr (legendre_values, legendre_prime))"

text \<open>The loop \<^verbatim>\<open>for (int i = 0; i < degree; ++i)\<close> under the comment ``normalizing''.\<close>

definition normalizing_step ::
  "real list \<Rightarrow> real matrix \<times> real matrix \<Rightarrow> nat \<Rightarrow> error + real matrix \<times> real matrix" where
  "normalizing_step domain matrices i =
     (case matrices of (legendre_values, legendre_prime) \<Rightarrow>
      let norm_2 = 2 / (2 * real i + 1);
          dscale = 1 / sqrt norm_2
      in on_success (extract_submatrix legendre_values 0 i (length domain) 1) (\<lambda>legendre_sub.
         on_success (update_col legendre_values i
                       (vector_times (vector_of_matrix legendre_sub) dscale))
           (\<lambda>legendre_values.
         on_success (extract_submatrix legendre_prime 0 i (length domain) 1)
           (\<lambda>legendre_prime_sub.
         on_success (update_col legendre_prime i
                       (vector_times (vector_of_matrix legendre_prime_sub) dscale))
           (\<lambda>legendre_prime. Inr (legendre_values, legendre_prime))))))"

fun normalizing_loop ::
  "real list \<Rightarrow> real matrix \<times> real matrix \<Rightarrow> nat list \<Rightarrow> error + real matrix \<times> real matrix" where
  "normalizing_loop domain matrices [] = Inr matrices"
| "normalizing_loop domain matrices (i # rest) =
     on_success (normalizing_step domain matrices i)
       (\<lambda>matrices. normalizing_loop domain matrices rest)"

text \<open>
  ``zero out points out of range'': the predicate given to \<^verbatim>\<open>find\<close> and the loop
  \<^verbatim>\<open>for (int i : out_of_range)\<close>.
\<close>

definition out_of_range_pred :: "real \<Rightarrow> bool" where
  "out_of_range_pred elem = (elem < - 1 \<or> elem > 1)"

fun zero_loop ::
  "int \<Rightarrow> real matrix \<times> real matrix \<Rightarrow> nat list \<Rightarrow> error + real matrix \<times> real matrix" where
  "zero_loop degree matrices [] = Inr matrices"
| "zero_loop degree matrices (i # rest) =
     (case matrices of (legendre_values, legendre_prime) \<Rightarrow>
      on_success (update_row legendre_values i (replicate (nat (max degree 1)) 0))
        (\<lambda>legendre_values.
      on_success (update_row legendre_prime i (replicate (nat (max degree 1)) 0))
        (\<lambda>legendre_prime. zero_loop degree (legendre_values, legendre_prime) rest)))"

text \<open>
  ``scaling to use normalization'', under the guard \<^verbatim>\<open>degree > 0\<close>:
  \<^verbatim>\<open>legendre = legendre * static_cast<P>(std::sqrt(2.0))\<close> and the same for
  \<^verbatim>\<open>legendre_prime\<close>. The operator called is \<^verbatim>\<open>operator*(int const)\<close>, so the factor
  of type \<^verbatim>\<open>P\<close> is converted to \<^verbatim>\<open>int\<close> at the call.
\<close>

definition scaling :: "int \<Rightarrow> real matrix \<times> real matrix \<Rightarrow> real matrix \<times> real matrix" where
  "scaling degree matrices =
     (case matrices of (legendre_values, legendre_prime) \<Rightarrow>
      if degree > 0
      then (matrix_times legendre_values (int_of_floating (sqrt 2)),
            matrix_times legendre_prime (int_of_floating (sqrt 2)))
      else (legendre_values, legendre_prime))"

text \<open>
  \<^verbatim>\<open>legendre(domain, degree)\<close>: the two assertions, then the stages in the order of
  the source. The pair is the returned \<^verbatim>\<open>std::array\<close>: the values, then the
  derivatives.
\<close>

definition legendre :: "real list \<Rightarrow> int \<Rightarrow> error + real matrix \<times> real matrix" where
  "legendre domain degree =
     (if \<not> degree \<ge> 0 then Inl (Assertion_failed ''degree >= 0'')
      else if \<not> length domain > 0 then Inl (Assertion_failed ''domain.size() > 0'')
      else on_success (initial_columns domain degree) (\<lambda>matrices.
           on_success (remaining_columns domain degree matrices) (\<lambda>matrices.
           on_success (normalizing_loop domain matrices [0..<nat degree]) (\<lambda>matrices.
           on_success (zero_loop degree matrices (find_indices domain out_of_range_pred))
             (\<lambda>matrices. Inr (scaling degree matrices))))))"

subsection \<open>The polynomials \<^verbatim>\<open>legendre\<close> is to evaluate\<close>

text \<open>
  Modelled from the spec: ``normalized Legendre polynomial values and derivatives on
  the domain''. The Legendre polynomials by their three-term recurrence
  \<open>(n + 1) P\<^bsub>n+1\<^esub>(x) = (2 n + 1) x P\<^bsub>n\<^esub>(x) - n P\<^bsub>n-1\<^esub>(x)\<close> from
  \<open>P\<^bsub>0\<^esub> = 1\<close>, \<open>P\<^bsub>1\<^esub> = x\<close>; their derivatives; and both divided by the norm
  \<open>sqrt (2 / (2 n + 1))\<close> of \<open>P\<^bsub>n\<^esub>\<close> on \<open>[-1, 1]\<close>.
\<close>

fun legendre_polynomial :: "nat \<Rightarrow> real \<Rightarrow> real" where
  "legendre_polynomial 0 x = 1"
| "legendre_polynomial (Suc 0) x = x"
| "legendre_polynomial (Suc (Suc n)) x =
     ((2 * real (Suc n) + 1) * x * legendre_polynomial (Suc n) x
        - real (Suc n) * legendre_polynomial n x) / (real (Suc n) + 1)"

fun legendre_derivative :: "nat \<Rightarrow> real \<Rightarrow> real" where
  "legendre_derivative 0 x = 0"
| "legendre_derivative (Suc 0) x = 1"
| "legendre_derivative (Suc (Suc n)) x =
     ((2 * real (Suc n) + 1) * (x * legendre_derivative (Suc n) x + legendre_polynomial (Suc n) x)
        - real (Suc n) * legendre_derivative n x) / (real (Suc n) + 1)"

definition normalized_legendre :: "nat \<Rightarrow> real \<Rightarrow> real" where
  "normalized_legendre n x = legendre_polynomial n x / sqrt (2 / (2 * real n + 1))"

definition normalized_legendre_derivative :: "nat \<Rightarrow> real \<Rightarrow> real" where
  "normalized_legendre_derivative n x = legendre_derivative n x / sqrt (2 / (2 * real n + 1))"

text \<open>The matrix of \<open>r\<close> rows and \<open>c\<close> columns with the element \<open>f i j\<close> in row \<open>i\<close>, column \<open>j\<close>.\<close>

definition matrix_of :: "nat \<Rightarrow> nat \<Rightarrow> (nat \<Rightarrow> nat \<Rightarrow> 'a) \<Rightarrow> 'a matrix" where
  "matrix_of r c f = \<lparr>nrows = r, ncols = c, data = map (\<lambda>q. f (q mod r) (q div r)) [0..<r * c]\<rparr>"

text \<open>
  The state of the loop over the remaining columns before iteration \<open>k\<close>, on matrices
  of \<open>c\<close> columns: the columns below \<open>k + 2\<close> are set, the four vectors hold the
  columns \<open>k + 1\<close> and \<open>k\<close>.
\<close>

definition remaining_state :: "real list \<Rightarrow> nat \<Rightarrow> nat \<Rightarrow> legendre_state" where
  "remaining_state domain c k =
     (matrix_of (length domain) c (\<lambda>i j. if j < k + 2 then legendre_polynomial j (domain ! i) else 0),
      matrix_of (length domain) c (\<lambda>i j. if j < k + 2 then legendre_derivative j (domain ! i) else 0),
      map (\<lambda>i. legendre_polynomial (k + 1) (domain ! i)) [0..<length domain],
      map (\<lambda>i. legendre_derivative (k + 1) (domain ! i)) [0..<length domain],
      map (\<lambda>i. legendre_polynomial k (domain ! i)) [0..<length domain],
      map (\<lambda>i. legendre_derivative k (domain ! i)) [0..<length domain])"

text \<open>The two matrices before iteration \<open>k\<close> of the normalizing loop.\<close>

definition normalizing_state :: "real list \<Rightarrow> nat \<Rightarrow> nat \<Rightarrow> real matrix \<times> real matrix" where
  "normalizing_state domain c k =
     (matrix_of (length domain) c
        (\<lambda>i j. if j < k then legendre_polynomial j (domain ! i) * (1 / sqrt (2 / (2 * real j + 1)))
               else legendre_polynomial j (domain ! i)),
      matrix_of (length domain) c
        (\<lambda>i j. if j < k then legendre_derivative j (domain ! i) * (1 / sqrt (2 / (2 * real j + 1)))
               else legendre_derivative j (domain ! i)))"

section \<open>Properties of the tensor primitives\<close>

subsection \<open>Transposition\<close>

lemma matrix_new_simps [simp]:
  "nrows (matrix_new M N) = M" "ncols (matrix_new M N) = N"
  "length (data (matrix_new M N)) = M * N"
  by (simp_all add: matrix_new_def)

lemma mat_set_simps [simp]:
  "nrows (mat_set m i j v) = nrows m" "ncols (mat_set m i j v) = ncols m"
  "length (data (mat_set m i j v)) = length (data m)"
  "data (mat_set m i j v) = (data m)[j * nrows m + i := v]"
  by (simp_all add: mat_set_def)

lemma position_unique:
  fixes j :: nat
  assumes "j < n"
  shows "(q = r * n + j) = (q mod n = j \<and> q div n = r)"
  using assms by (auto simp: div_mult_self3)

lemma position_bound:
  fixes j :: nat
  assumes "j < n" "r < c"
  shows "r * n + j < n * c"
proof -
  have "r * n + j < r * n + n" using assms by simp
  also have "\<dots> = n * Suc r" by simp
  also have "\<dots> \<le> n * c" using assms by (intro mult_le_mono2) simp
  finally show ?thesis .
qed

text \<open>The inner loop over the rows i < r for a fixed column j of the source.\<close>

lemma transpose_inner:
  assumes "j < nrows t" "length (data t) = nrows t * ncols t"
  shows "r \<le> ncols t \<Longrightarrow>
   nrows (foldl (\<lambda>temp i. mat_set temp j i (f i)) t [0..<r]) = nrows t \<and>
   ncols (foldl (\<lambda>temp i. mat_set temp j i (f i)) t [0..<r]) = ncols t \<and>
   length (data (foldl (\<lambda>temp i. mat_set temp j i (f i)) t [0..<r])) = length (data t) \<and>
   (\<forall>q. data (foldl (\<lambda>temp i. mat_set temp j i (f i)) t [0..<r]) ! q =
     (if q mod nrows t = j \<and> q div nrows t < r
      then f (q div nrows t) else data t ! q))"
proof (induction r)
  case 0
  show ?case by simp
next
  case (Suc r)
  let ?t = "foldl (\<lambda>temp i. mat_set temp j i (f i)) t [0..<r]"
  from Suc have IH: "nrows ?t = nrows t" "ncols ?t = ncols t" "length (data ?t) = length (data t)"
    "\<And>q. data ?t ! q = (if q mod nrows t = j \<and> q div nrows t < r
      then f (q div nrows t) else data t ! q)" by simp_all
  have bound: "r * nrows t + j < length (data ?t)"
    using position_bound [of j "nrows t" r "ncols t"] assms Suc.prems IH by simp
  have "data (foldl (\<lambda>temp i. mat_set temp j i (f i)) t [0..<Suc r]) ! q =
     (if q mod nrows t = j \<and> q div nrows t < Suc r
      then f (q div nrows t) else data t ! q)" for q
    using bound position_unique [OF assms(1), of q r] IH
    by (auto simp: nth_list_update less_Suc_eq)
  then show ?case using IH by simp
qed

lemma transpose_outer:
  "c \<le> ncols m \<Longrightarrow>
   nrows (foldl (\<lambda>temp j. foldl (\<lambda>temp i. mat_set temp j i (mat_get m i j)) temp [0..<nrows m])
       (matrix_new (ncols m) (nrows m)) [0..<c]) = ncols m \<and>
   ncols (foldl (\<lambda>temp j. foldl (\<lambda>temp i. mat_set temp j i (mat_get m i j)) temp [0..<nrows m])
       (matrix_new (ncols m) (nrows m)) [0..<c]) = nrows m \<and>
   length (data (foldl (\<lambda>temp j. foldl (\<lambda>temp i. mat_set temp j i (mat_get m i j)) temp [0..<nrows m])
       (matrix_new (ncols m) (nrows m)) [0..<c])) = ncols m * nrows m \<and>
   (\<forall>q. q mod ncols m < c \<and> q div ncols m < nrows m \<longrightarrow>
      data (foldl (\<lambda>temp j. foldl (\<lambda>temp i. mat_set temp j i (mat_get m i j)) temp [0..<nrows m])
       (matrix_new (ncols m) (nrows m)) [0..<c]) ! q = mat_get m (q div ncols m) (q mod ncols m))"
proof (induction c)
  case 0
  show ?case by simp
next
  case (Suc c)
  let ?t = "foldl (\<lambda>temp j. foldl (\<lambda>temp i. mat_set temp j i (mat_get m i j)) temp [0..<nrows m])
       (matrix_new (ncols m) (nrows m)) [0..<c]"
  from Suc have IH: "nrows ?t = ncols m" "ncols ?t = nrows m" "length (data ?t) = ncols m * nrows m"
    "\<And>q. q mod ncols m < c \<Longrightarrow> q div ncols m < nrows m \<Longrightarrow>
        data ?t ! q = mat_get m (q div ncols m) (q mod ncols m)" by simp_all
  have "c < nrows ?t" "length (data ?t) = nrows ?t * ncols ?t" "nrows m \<le> ncols ?t"
    using Suc.prems IH by simp_all
  from transpose_inner [OF this(1,2,3), of "\<lambda>i. mat_get m i c"] IH
  show ?case by (auto simp: less_Suc_eq)
qed

lemma matrix_transpose_shape:
  "nrows (matrix_transpose m) = ncols m" "ncols (matrix_transpose m) = nrows m"
  "length (data (matrix_transpose m)) = ncols m * nrows m"
  using transpose_outer [of "ncols m" m] by (simp_all add: matrix_transpose_def)

lemma matrix_transpose_get:
  assumes "i < nrows m" "j < ncols m"
  shows "mat_get (matrix_transpose m) j i = mat_get m i j"
proof -
  have "(i * ncols m + j) mod ncols m = j" "(i * ncols m + j) div ncols m = i"
    using assms by simp_all
  then show ?thesis
    using transpose_outer [of "ncols m" m] assms
    by (simp add: matrix_transpose_def mat_get_def)
qed

lemma matrix_transpose_twice:
  assumes "matrix_ok m"
  shows "matrix_transpose (matrix_transpose m) = m"
proof -
  let ?t = "matrix_transpose m" and ?tt = "matrix_transpose (matrix_transpose m)"
  have shape: "nrows ?tt = nrows m" "ncols ?tt = ncols m"
    by (simp_all add: matrix_transpose_shape)
  have len: "length (data ?tt) = length (data m)"
    using assms by (simp add: matrix_transpose_shape matrix_ok_def)
  have "data ?tt ! p = data m ! p" if "p < length (data m)" for p
  proof -
    from that assms have p: "p < nrows m * ncols m" by (simp add: matrix_ok_def)
    then have n: "0 < nrows m" by (cases "nrows m") simp_all
    let ?i = "p mod nrows m" and ?j = "p div nrows m"
    have i: "?i < nrows m" using n by simp
    have j: "?j < ncols m" using p by (simp add: less_mult_imp_div_less mult.commute)
    have "data ?tt ! p = mat_get ?tt ?i ?j"
      by (simp add: mat_get_def shape)
    also have "\<dots> = mat_get ?t ?j ?i"
      using matrix_transpose_get [of ?j ?t ?i] i j by (simp add: matrix_transpose_shape)
    also have "\<dots> = mat_get m ?i ?j"
      using matrix_transpose_get [of ?i m ?j] i j by simp
    also have "\<dots> = data m ! p" by (simp add: mat_get_def)
    finally show ?thesis .
  qed
  then have "data ?tt = data m" using len by (simp add: nth_equalityI)
  then show ?thesis using shape by simp
qed

lemma entries_differ_same:
  "0 \<le> epsilon \<Longrightarrow> \<not> entries_differ (Floating_point epsilon) x x"
  "\<not> entries_differ Not_floating_point x x"
  by (simp_all add: entries_differ_def TOL_def)

lemma matrix_eq_refl:
  "(case P of Floating_point epsilon \<Rightarrow> 0 \<le> epsilon | Not_floating_point \<Rightarrow> True) \<Longrightarrow> matrix_eq P m m"
  by (cases P) (simp_all add: matrix_eq_def list_all_iff entries_differ_same)

lemma vector_eq_refl:
  "(case P of Floating_point epsilon \<Rightarrow> 0 \<le> epsilon | Not_floating_point \<Rightarrow> True) \<Longrightarrow> vector_eq P v v"
  by (cases P) (simp_all add: vector_eq_def list_all_iff entries_differ_same)


text \<open>
  Claim C9. For every matrix \<open>m\<close> (holding \<open>nrows * ncols\<close> elements), transposing
  twice gives back the original: the dimensions and every entry are those of \<open>m\<close>,
  and \<^verbatim>\<open>operator==\<close> reports the two equal, for a floating-point element type
  (whose machine epsilon is not negative) as for any other.
\<close>

theorem transpose_round_trip:
  assumes "matrix_ok m" and "0 \<le> epsilon"
  shows "matrix_transpose (matrix_transpose m) = m \<and>
         matrix_eq (Floating_point epsilon) (matrix_transpose (matrix_transpose m)) m \<and>
         matrix_eq Not_floating_point (matrix_transpose (matrix_transpose m)) m"
  using assms matrix_transpose_twice [of m]
    matrix_eq_refl [of "Floating_point epsilon" m] matrix_eq_refl [of Not_floating_point m]
  by simp

theorem transpose_round_trip_witness:
  "matrix_ok example_matrix \<and> (0::int) \<le> 0 \<and>
   matrix_transpose (matrix_transpose example_matrix) = example_matrix \<and>
   matrix_eq (Floating_point 0) (matrix_transpose (matrix_transpose example_matrix)) example_matrix \<and>
   matrix_eq Not_floating_point (matrix_transpose (matrix_transpose example_matrix)) example_matrix"
proof -
  have ok: "matrix_ok example_matrix"
    by (simp add: matrix_ok_def example_matrix_def)
  have eps: "(0::int) \<le> 0"
    by simp
  show ?thesis
    using ok eps transpose_round_trip [OF ok eps] by blast
qed

subsection \<open>Comparison with tolerance\<close>

lemma entries_differ_floating:
  "entries_differ (Floating_point epsilon) x y =
     (\<bar>x\<bar> > epsilon * 2 \<and> \<bar>y\<bar> > epsilon * 2 \<and> \<bar>x - y\<bar> > epsilon * 2)"
  by (auto simp: entries_differ_def TOL_def)

lemma vector_eq_iff:
  "vector_eq P a b =
     (length a = length b \<and> (\<forall>i<length a. \<not> entries_differ P (a ! i) (b ! i)))"
  by (auto simp: vector_eq_def list_all_iff)

lemma matrix_eq_iff:
  "matrix_eq P a b =
     (nrows a = nrows b \<and> ncols a = ncols b \<and>
      (\<forall>j<ncols a. \<forall>i<nrows a. \<not> entries_differ P (mat_get a i j) (mat_get b i j)))"
  by (auto simp: matrix_eq_def list_all_iff)


text \<open>
  Claim C10. For a floating-point element type, \<^verbatim>\<open>operator==\<close> of vectors and of
  matrices reports two same-size operands unequal only at a position where both
  entries exceed \<open>2 * epsilon\<close> in absolute value. So two same-size operands
  compare equal whenever, at every position, one of the two entries is at most
  \<open>2 * epsilon\<close> in absolute value; and the zero vector compares equal to every
  vector of its size.
\<close>

theorem operator_eq_tolerance:
  fixes epsilon :: "'a::linordered_idom"
  shows
  "(length a = length b \<and> \<not> vector_eq (Floating_point epsilon) a b \<longrightarrow>
      (\<exists>i<length a. \<bar>a ! i\<bar> > 2 * epsilon \<and> \<bar>b ! i\<bar> > 2 * epsilon)) \<and>
   (nrows A = nrows B \<and> ncols A = ncols B \<and> \<not> matrix_eq (Floating_point epsilon) A B \<longrightarrow>
      (\<exists>j<ncols A. \<exists>i<nrows A. \<bar>mat_get A i j\<bar> > 2 * epsilon \<and> \<bar>mat_get B i j\<bar> > 2 * epsilon)) \<and>
   (length a = length b \<and> (\<forall>i<length a. \<bar>a ! i\<bar> \<le> 2 * epsilon \<or> \<bar>b ! i\<bar> \<le> 2 * epsilon) \<longrightarrow>
      vector_eq (Floating_point epsilon) a b) \<and>
   (nrows A = nrows B \<and> ncols A = ncols B \<and>
      (\<forall>j<ncols A. \<forall>i<nrows A. \<bar>mat_get A i j\<bar> \<le> 2 * epsilon \<or> \<bar>mat_get B i j\<bar> \<le> 2 * epsilon) \<longrightarrow>
      matrix_eq (Floating_point epsilon) A B) \<and>
   (0 \<le> epsilon \<longrightarrow> vector_eq (Floating_point epsilon) (replicate (length b) 0) b)"
proof (intro conjI impI)
  assume "length a = length b \<and> \<not> vector_eq (Floating_point epsilon) a b"
  then show "\<exists>i<length a. \<bar>a ! i\<bar> > 2 * epsilon \<and> \<bar>b ! i\<bar> > 2 * epsilon"
    by (auto simp: vector_eq_iff entries_differ_floating mult.commute)
next
  assume "nrows A = nrows B \<and> ncols A = ncols B \<and> \<not> matrix_eq (Floating_point epsilon) A B"
  then show "\<exists>j<ncols A. \<exists>i<nrows A. \<bar>mat_get A i j\<bar> > 2 * epsilon \<and> \<bar>mat_get B i j\<bar> > 2 * epsilon"
    by (auto simp: matrix_eq_iff entries_differ_floating mult.commute)
next
  assume "length a = length b \<and> (\<forall>i<length a. \<bar>a ! i\<bar> \<le> 2 * epsilon \<or> \<bar>b ! i\<bar> \<le> 2 * epsilon)"
  then show "vector_eq (Floating_point epsilon) a b"
    by (fastforce simp: vector_eq_iff entries_differ_floating mult.commute)
next
  assume "nrows A = nrows B \<and> ncols A = ncols B \<and>
      (\<forall>j<ncols A. \<forall>i<nrows A. \<bar>mat_get A i j\<bar> \<le> 2 * epsilon \<or> \<bar>mat_get B i j\<bar> \<le> 2 * epsilon)"
  then show "matrix_eq (Floating_point epsilon) A B"
    by (fastforce simp: matrix_eq_iff entries_differ_floating mult.commute)
next
  assume "0 \<le> epsilon"
  then show "vector_eq (Floating_point epsilon) (replicate (length b) 0) b"
    by (simp add: vector_eq_iff entries_differ_floating)
qed


theorem operator_eq_tolerance_witness:
  "length [0, 5 :: real] = length [3, 0 :: real] \<and>
   vector_eq (Floating_point (1 / 2 ^ 52 :: real)) [0, 5] [3, 0] \<and>
   vector_eq (Floating_point (1 / 2 ^ 52 :: real)) (replicate (length [3, 0 :: real]) 0) [3, 0]"
proof -
  have h: "\<forall>i<length [0, 5 :: real]. \<bar>[0, 5 :: real] ! i\<bar> \<le> 2 * (1 / 2 ^ 52) \<or>
       \<bar>[3, 0 :: real] ! i\<bar> \<le> 2 * (1 / 2 ^ 52)"
    by (simp add: less_Suc_eq nth_Cons')
  show ?thesis
    using h operator_eq_tolerance [of "[0, 5]" "[3, 0]" "1 / 2 ^ 52 :: real"]
    by simp
qed

section \<open>Properties of the PDE factory\<close>

text \<open>
  Claim C8, as stated: selecting \<^verbatim>\<open>vlasov4\<close> is surfaced by \<^verbatim>\<open>make_PDE\<close> as an error.
  It is not: the factory returns an instance, and that instance is of the
  \<^verbatim>\<open>continuity_1d\<close> class, the same that \<^verbatim>\<open>continuity_1\<close> selects.
\<close>

theorem make_PDE_vlasov_counterexample:
  "make_PDE (Some vlasov4) 2 3 = Inr (make_unique PDE_continuity_1d 2 3) \<and>
   make_PDE (Some vlasov4) 2 3 = make_PDE (Some continuity_1) 2 3 \<and>
   \<not> isl (make_PDE (Some vlasov4) 2 3)"
  by simp

text \<open>
  Claim C8, amended: for each of \<^verbatim>\<open>vlasov4\<close>, \<^verbatim>\<open>vlasov43\<close>, \<^verbatim>\<open>vlasov5\<close>, \<^verbatim>\<open>vlasov7\<close>
  and \<^verbatim>\<open>vlasov8\<close> the factory returns a \<^verbatim>\<open>continuity_1d\<close> instance built from the
  given level and degree, as a placeholder; it ends the program, with the message
  \<^verbatim>\<open>Invalid pde choice\<close> and exit status \<open>-1\<close>, only for a choice that is none of the
  enumerators.
\<close>

theorem make_PDE_vlasov_placeholder:
  "make_PDE (Some vlasov4) level degree = Inr (make_unique PDE_continuity_1d level degree) \<and>
   make_PDE (Some vlasov43) level degree = Inr (make_unique PDE_continuity_1d level degree) \<and>
   make_PDE (Some vlasov5) level degree = Inr (make_unique PDE_continuity_1d level degree) \<and>
   make_PDE (Some vlasov7) level degree = Inr (make_unique PDE_continuity_1d level degree) \<and>
   make_PDE (Some vlasov8) level degree = Inr (make_unique PDE_continuity_1d level degree) \<and>
   (isl (make_PDE choice level degree) = (choice = None)) \<and>
   make_PDE None level degree = Inl (Exit ''Invalid pde choice'' (- 1))"
proof -
  have "isl (make_PDE choice level degree) = (choice = None)"
  proof (cases choice)
    case None
    then show ?thesis by simp
  next
    case (Some c)
    then show ?thesis by (cases c) simp_all
  qed
  then show ?thesis by simp
qed

section \<open>Properties of the batch container\<close>

lemma gemm_loop_upto:
  assumes "length (batch_list b) = length (batch_list a)" "length (batch_list c) = length (batch_list a)"
  shows "lo \<le> length (batch_list a) \<Longrightarrow> gemm_loop a b c call [int lo .. int (length (batch_list a)) - 1] =
     Inr (map (\<lambda>i. call (the (batch_list a ! i)) (the (batch_list b ! i)) (the (batch_list c ! i)))
        (filter (\<lambda>i. batch_list a ! i \<noteq> None \<and> batch_list b ! i \<noteq> None \<and> batch_list c ! i \<noteq> None)
           [lo..<length (batch_list a)]))"
proof (induction "length (batch_list a) - lo" arbitrary: lo)
  case 0
  then show ?case by simp
next
  case (Suc d)
  then have lo: "lo < length (batch_list a)" by simp
  then have u: "[int lo .. int (length (batch_list a)) - 1] = int lo # [int (Suc lo) .. int (length (batch_list a)) - 1]"
    by (simp add: upto_rec1 add.commute)
  have l: "[lo..<length (batch_list a)] = lo # [Suc lo..<length (batch_list a)]"
    using lo by (simp add: upt_conv_Cons)
  have IH: "gemm_loop a b c call [int (Suc lo) .. int (length (batch_list a)) - 1] =
     Inr (map (\<lambda>i. call (the (batch_list a ! i)) (the (batch_list b ! i)) (the (batch_list c ! i)))
        (filter (\<lambda>i. batch_list a ! i \<noteq> None \<and> batch_list b ! i \<noteq> None \<and> batch_list c ! i \<noteq> None)
           [Suc lo..<length (batch_list a)]))"
    using Suc(1) [of "Suc lo"] Suc(2) lo by simp
  show ?case
    unfolding u l using IH lo assms
    by (auto simp: batch_at_def num_entries_def split: option.splits)
qed

text \<open>
  Claim C6. \<^verbatim>\<open>batched_gemm(A, B, C, alpha, beta)\<close> stops on an assertion exactly when
  its precondition fails (equal numbers of entries, \<open>C\<close> not transposed, shapes that
  fit after the optional transposition). Under the precondition it issues the gemm
  of slot \<open>i\<close> once for each slot \<open>i\<close> at which the three pointers are not null, in
  increasing order of \<open>i\<close>, and no other gemm.
\<close>

theorem batched_gemm_spec:
  "(isl (batched_gemm a b c alpha beta) = (\<not> batched_gemm_precondition a b c)) \<and>
   (batched_gemm_precondition a b c \<longrightarrow>
      batched_gemm a b c alpha beta =
        Inr (map (gemm_of_slot a b c alpha beta) (ready_slots a b c)))"
proof (cases "batched_gemm_precondition a b c")
  case False
  then show ?thesis
    by (auto simp: batched_gemm_precondition_def batched_gemm_def rows_op_def cols_op_def Let_def)
next
  case True
  then have len: "length (batch_list b) = length (batch_list a)" "length (batch_list c) = length (batch_list a)"
    by (simp_all add: batched_gemm_precondition_def num_entries_def)
  have loop: "gemm_loop a b c call [0 .. num_entries a - 1] =
      Inr (map (\<lambda>i. call (the (batch_list a ! i)) (the (batch_list b ! i)) (the (batch_list c ! i)))
        (ready_slots a b c))" for call :: "'a \<Rightarrow> 'a \<Rightarrow> 'a \<Rightarrow> ('a, 'b) gemm_call"
    using gemm_loop_upto [OF len, of 0 call] by (simp add: num_entries_def ready_slots_def)
  have pre: "num_entries a = num_entries b" "num_entries b = num_entries c" "\<not> do_trans c"
    "cols_op a = rows_op b" "batch_nrows c = rows_op a" "batch_ncols c = cols_op b"
    using True by (simp_all add: batched_gemm_precondition_def)
  have "batched_gemm a b c alpha beta =
     gemm_loop a b c (\<lambda>pa pb pc.
                 \<lparr>gemm_transa = (if do_trans a then CHR ''t'' else CHR ''n''),
                  gemm_transb = (if do_trans b then CHR ''t'' else CHR ''n''),
                  gemm_m = rows_op a, gemm_n = cols_op b, gemm_k = cols_op a,
                  gemm_alpha = alpha, gemm_A = pa, gemm_lda = batch_stride a,
                  gemm_B = pb, gemm_ldb = batch_stride b,
                  gemm_beta = beta, gemm_C = pc, gemm_ldc = batch_stride c\<rparr>)
              [0 .. num_entries a - 1]"
    unfolding batched_gemm_def Let_def rows_op_def [symmetric] cols_op_def [symmetric]
    using pre by (simp only: if_False if_True not_not simp_thms)
  also have "\<dots> = Inr (map (gemm_of_slot a b c alpha beta) (ready_slots a b c))"
    unfolding loop gemm_of_slot_def ..
  finally have "batched_gemm a b c alpha beta = Inr (map (gemm_of_slot a b c alpha beta) (ready_slots a b c))" .
  then show ?thesis using True by simp
qed

theorem batched_gemm_spec_witness:
  "batched_gemm_precondition example_a example_b example_c \<and>
   ready_slots example_a example_b example_c = [0] \<and>
   batched_gemm example_a example_b example_c (1::int) 0 =
     Inr [\<lparr>gemm_transa = CHR ''n'', gemm_transb = CHR ''t'', gemm_m = 2, gemm_n = 3, gemm_k = 2,
           gemm_alpha = 1, gemm_A = 100, gemm_lda = 2, gemm_B = 200, gemm_ldb = 3,
           gemm_beta = 0, gemm_C = 300, gemm_ldc = 2\<rparr>]"
proof -
  have pre: "batched_gemm_precondition example_a example_b example_c"
    by (simp add: batched_gemm_precondition_def example_a_def example_b_def example_c_def
        num_entries_def rows_op_def cols_op_def)
  have slots: "ready_slots example_a example_b example_c = [0]"
    by (simp add: ready_slots_def example_a_def example_b_def example_c_def upt_rec)
  have "batched_gemm example_a example_b example_c (1::int) 0 =
      Inr (map (gemm_of_slot example_a example_b example_c 1 0)
             (ready_slots example_a example_b example_c))"
    using pre batched_gemm_spec [of example_a example_b example_c "1::int" 0] by blast
  then show ?thesis
    using pre slots
    by (simp add: gemm_of_slot_def example_a_def example_b_def example_c_def rows_op_def cols_op_def)
qed


section \<open>Properties of the steps of the batcher\<close>

subsection \<open>Reading lists of steps\<close>

lemma assigns_for_append [simp]:
  "assigns_for d operand (xs @ ys) = assigns_for d operand xs @ assigns_for d operand ys"
  by (induction xs rule: assigns_for.induct) simp_all

lemma assigns_for_concat:
  "assigns_for d operand (concat xss) = concat (map (assigns_for d operand) xss)"
  by (induction xss) simp_all

lemma assigned_slots_append [simp]:
  "assigned_slots (xs @ ys) = assigned_slots xs @ assigned_slots ys"
  by (induction xs rule: assigned_slots.induct) simp_all

lemma assigned_slots_concat:
  "assigned_slots (concat xss) = concat (map assigned_slots xss)"
  by (induction xss) simp_all

lemma failures_append [simp]:
  "failures (xs @ ys) = failures xs @ failures ys"
  by (induction xs rule: failures.induct) simp_all

lemma failures_concat:
  "failures (concat xss) = concat (map failures xss)"
  by (induction xss) simp_all

lemma concat_map_single:
  "distinct xs \<Longrightarrow> x \<in> set xs \<Longrightarrow> concat (map (\<lambda>y. if y = x then X else []) xs) = X"
  by (induction xs) (auto simp: map_idI)

lemma concat_map_none:
  "x \<notin> set xs \<Longrightarrow> concat (map (\<lambda>y. if y = x then X else []) xs) = []"
  by (induction xs) auto

lemma pow_int_nonneg [simp]: "0 \<le> e \<Longrightarrow> pow_int b e = b ^ nat e"
  by (simp add: pow_int_def)

lemma kron_base_explicit:
  assumes "0 < degree" "0 < ndims"
  shows "kron_base A0 x y d off degree ndims =
    [Assign d 0 A0 off,
     Assign d 1 (matrix_view_of_vector x degree (degree ^ nat (ndims - 1)) 0) off,
     Assign d 2 (matrix_view_of_vector y degree (degree ^ nat (ndims - 1)) 0) off]"
  using assms by (simp add: kron_base_def compute_dimensions_def)

lemma gemm_events_explicit:
  assumes "1 \<le> d" "d < int (length A)" "length work = 2"
  shows "gemm_events A work d sizes G offset off = (\<lambda>g.
    [Assign (nat d) 0 (matrix_view_of_vector (work ! nat ((d - 1) mod 2)) (rows_a sizes) (cols_a sizes) (offset * g)) (off * G + g),
     Assign (nat d) 1 (A ! nat d) (off * G + g),
     Assign (nat d) 2 (matrix_view_of_vector (work ! nat (d mod 2)) (rows_a sizes) (cols_a sizes) (offset * g)) (off * G + g)])"
proof (rule ext)
  fix g
  have "(d - 1) mod 2 < 2" "0 \<le> (d - 1) mod 2" "d mod 2 < 2" "0 \<le> d mod 2" by simp_all
  then show "gemm_events A work d sizes G offset off g =
    [Assign (nat d) 0 (matrix_view_of_vector (work ! nat ((d - 1) mod 2)) (rows_a sizes) (cols_a sizes) (offset * g)) (off * G + g),
     Assign (nat d) 1 (A ! nat d) (off * G + g),
     Assign (nat d) 2 (matrix_view_of_vector (work ! nat (d mod 2)) (rows_a sizes) (cols_a sizes) (offset * g)) (off * G + g)]"
    using assms by (simp add: gemm_events_def element_at_def)
qed

lemma power_split:
  fixes degree :: int
  assumes "1 \<le> d" "d \<le> D - 2"
  shows "degree ^ nat d * degree * degree ^ nat (D - d - 1) = degree ^ nat D"
proof -
  have "nat D = nat d + 1 + nat (D - d - 1)" using assms by simp
  then show ?thesis by (simp add: power_add)
qed

lemma dimension_events_explicit:
  assumes "0 < degree" "1 \<le> d" "d \<le> D - 2" "D \<le> int (length A)" "length work = 2"
  shows "dimension_events A work degree D off d =
    concat (map (\<lambda>g.
      [Assign (nat d) 0 (matrix_view_of_vector (work ! nat ((d - 1) mod 2)) (degree ^ nat d) degree
          (degree ^ nat d * degree * g)) (off * degree ^ nat (D - d - 1) + g),
       Assign (nat d) 1 (A ! nat d) (off * degree ^ nat (D - d - 1) + g),
       Assign (nat d) 2 (matrix_view_of_vector (work ! nat (d mod 2)) (degree ^ nat d) degree
          (degree ^ nat d * degree * g)) (off * degree ^ nat (D - d - 1) + g)])
      [0 .. degree ^ nat (D - d - 1) - 1])"
proof -
  have dl: "d < int (length A)" using assms by simp
  show ?thesis
    using assms power_split [OF assms(2,3), of degree]
    by (simp add: dimension_events_def compute_dimensions_def compute_batch_size_def
        gemm_events_explicit [OF assms(2) dl assms(5)] Let_def)
qed

lemma last_dimension_events_explicit:
  assumes "0 < degree" "2 \<le> D" "D \<le> int (length A)" "int (length work) = min (D - 1) 2"
  shows "last_dimension_events A y work degree D off =
    [Assign (nat (D - 1)) 0 (matrix_view_of_vector (work ! nat (D mod 2)) (degree ^ nat (D - 1)) degree 0) off,
     Assign (nat (D - 1)) 1 (A ! nat (D - 1)) off,
     Assign (nat (D - 1)) 2 (matrix_view_of_vector y (degree ^ nat (D - 1)) degree 0) off]"
proof -
  have "D mod 2 < int (length work)" "0 \<le> D mod 2"
    using assms by (auto simp: min_def split: if_splits) presburger+
  then show ?thesis using assms
    by (simp add: last_dimension_events_def compute_dimensions_def element_at_def)
qed

lemma check_matrix_sizes_ok:
  "list_all (\<lambda>matrix. mat_nrows matrix = degree \<and> mat_ncols matrix = degree) A \<Longrightarrow>
   check_matrix_sizes A degree = None"
  by (induction A) simp_all

lemma kronmult_events_explicit:
  assumes "kronmult_precondition A x y work n off pde"
  shows "kronmult_events A x y work n off pde =
    (if num_dims pde = 1
     then kron_base (A ! 0) x y 0 off (get_degree pde) (num_dims pde)
     else kron_base (A ! 0) x (work ! 0) 0 off (get_degree pde) (num_dims pde) @
          concat (map (dimension_events A work (get_degree pde) (num_dims pde) off) [1 .. num_dims pde - 2]) @
          last_dimension_events A y work (get_degree pde) (num_dims pde) off)"
proof -
  from assms have D: "1 \<le> num_dims pde"
    by (auto simp: kronmult_precondition_def min_def split: if_splits)
  show ?thesis
    using assms D
    by (auto simp: kronmult_events_def kronmult_precondition_def Let_def check_matrix_sizes_ok
        element_at_def min_def split: if_splits)
qed

subsection \<open>Running lists of steps\<close>

lemma assign_entry_Inr:
  "assign_entry a p b = Inr b' \<Longrightarrow>
     fits a b \<and> 0 \<le> p \<and> p < num_entries b \<and> batch_list b ! nat p = None \<and>
     b' = b\<lparr>batch_list := (batch_list b)[nat p := Some (mat_data a)]\<rparr>"
  by (auto simp: assign_entry_def fits_def split: if_splits simp del: not_None_eq)

lemma assign_entry_success:
  "fits a b \<Longrightarrow> 0 \<le> p \<Longrightarrow> p < num_entries b \<Longrightarrow> batch_list b ! nat p = None \<Longrightarrow>
   assign_entry a p b = Inr (b\<lparr>batch_list := (batch_list b)[nat p := Some (mat_data a)]\<rparr>)"
  by (auto simp: assign_entry_def fits_def)

lemma assign_entry_write_once:
  "assign_entry a p b = Inl write_once \<Longrightarrow>
     0 \<le> p \<and> p < num_entries b \<and> batch_list b ! nat p \<noteq> None"
  by (auto simp: assign_entry_def write_once_def split: if_splits)

lemma count_after_assign:
  assumes "i < length xs" "xs ! i = None"
  shows "length (filter (\<lambda>ptr. ptr \<noteq> None) (xs[i := Some v])) =
         Suc (length (filter (\<lambda>ptr. ptr \<noteq> None) xs))"
  using assms
proof (induction xs arbitrary: i)
  case Nil
  then show ?case by simp
next
  case (Cons x xs)
  then show ?case by (cases i) auto
qed

text \<open>Running steps whose assignments all pass: the run succeeds and counts them.\<close>

lemma run_events_success:
  assumes "failures evs = []"
    and "\<And>d operand. distinct (map snd (assigns_for d operand evs))"
    and "\<And>d operand call. call \<in> set (assigns_for d operand evs) \<Longrightarrow> assignable bs d operand call"
  shows "\<exists>bs'. run_events evs bs = Inr bs' \<and> length bs' = length bs \<and>
     (\<forall>d operand. d < length bs \<longrightarrow> operand < length (bs ! d) \<longrightarrow>
        length (bs' ! d) = length (bs ! d) \<and>
        length (batch_list (bs' ! d ! operand)) = length (batch_list (bs ! d ! operand)) \<and>
        assigned_count (bs' ! d ! operand) =
          assigned_count (bs ! d ! operand) + length (assigns_for d operand evs))"
  using assms
proof (induction evs arbitrary: bs)
  case Nil
  then show ?case by simp
next
  case (Cons ev evs)
  show ?case
  proof (cases ev)
    case (Fail e)
    with Cons.prems(1) show ?thesis by simp
  next
    case (Assign d0 o0 a p)
    let ?b = "bs ! d0 ! o0"
    let ?b' = "?b\<lparr>batch_list := (batch_list ?b)[nat p := Some (mat_data a)]\<rparr>"
    let ?bs1 = "bs[d0 := (bs ! d0)[o0 := ?b']]"
    have here: "assignable bs d0 o0 (a, p)"
      using Cons.prems(3) [of "(a, p)" d0 o0] Assign by simp
    then have d0: "d0 < length bs" and o0: "o0 < length (bs ! d0)"
      and p: "0 \<le> p" "p < num_entries ?b" "batch_list ?b ! nat p = None" and f: "fits a ?b"
      by (simp_all add: assignable_def)
    have step: "run_events (ev # evs) bs = run_events evs ?bs1"
      using Assign d0 o0 assign_entry_success [OF f p] by (simp add: on_success_def)
    have fresh: "p \<notin> snd ` set (assigns_for d0 o0 evs)"
      using Cons.prems(2) [of d0 o0] Assign by simp
    have f1: "failures evs = []" using Cons.prems(1) Assign by simp
    have d1: "distinct (map snd (assigns_for d operand evs))" for d operand
      using Cons.prems(2) [of d operand] Assign by (simp split: if_splits)
    have a1: "assignable ?bs1 d operand call" if c: "call \<in> set (assigns_for d operand evs)"
      for d operand call
    proof -
      have old: "assignable bs d operand call"
        using Cons.prems(3) [of call d operand] c Assign by simp
      show ?thesis
      proof (cases "d = d0 \<and> operand = o0")
        case True
        then have "snd call \<noteq> p" using fresh c by auto
        moreover have "0 \<le> snd call" using old by (simp add: assignable_def)
        ultimately have "nat (snd call) \<noteq> nat p" using p(1) by simp
        then show ?thesis using old True d0 o0
          by (simp add: assignable_def fits_def num_entries_def)
      next
        case False
        then have "?bs1 ! d ! operand = bs ! d ! operand"
          using old by (cases "d = d0") (auto simp: assignable_def nth_list_update)
        moreover have "length (?bs1 ! d) = length (bs ! d)"
          using old by (cases "d = d0") (auto simp: assignable_def nth_list_update)
        ultimately show ?thesis using old by (simp add: assignable_def)
      qed
    qed
    from Cons.IH [OF f1 d1 a1]
    obtain bs' where run: "run_events evs ?bs1 = Inr bs'" and len: "length bs' = length ?bs1"
      and rest: "\<And>d operand. d < length ?bs1 \<Longrightarrow> operand < length (?bs1 ! d) \<Longrightarrow>
        length (bs' ! d) = length (?bs1 ! d) \<and>
        length (batch_list (bs' ! d ! operand)) = length (batch_list (?bs1 ! d ! operand)) \<and>
        assigned_count (bs' ! d ! operand) =
          assigned_count (?bs1 ! d ! operand) + length (assigns_for d operand evs)"
      by blast
    have "length (bs' ! d) = length (bs ! d) \<and>
        length (batch_list (bs' ! d ! operand)) = length (batch_list (bs ! d ! operand)) \<and>
        assigned_count (bs' ! d ! operand) =
          assigned_count (bs ! d ! operand) + length (assigns_for d operand (ev # evs))"
      if dd: "d < length bs" and oo: "operand < length (bs ! d)" for d operand
    proof -
      have l1: "length (?bs1 ! d) = length (bs ! d)"
        using dd by (cases "d = d0") (auto simp: nth_list_update)
      have r: "length (bs' ! d) = length (?bs1 ! d) \<and>
        length (batch_list (bs' ! d ! operand)) = length (batch_list (?bs1 ! d ! operand)) \<and>
        assigned_count (bs' ! d ! operand) =
          assigned_count (?bs1 ! d ! operand) + length (assigns_for d operand evs)"
        using rest [of d operand] dd oo l1 by simp
      show ?thesis
      proof (cases "d = d0 \<and> operand = o0")
        case True
        have "nat p < length (batch_list ?b)" using p by (simp add: num_entries_def)
        then have "assigned_count ?b' = Suc (assigned_count ?b)"
          using p(3) count_after_assign [of "nat p" "batch_list ?b" "mat_data a"]
          by (simp add: assigned_count_def del: not_None_eq)
        moreover have "?bs1 ! d ! operand = ?b'" using True d0 o0 by simp
        ultimately show ?thesis using r l1 True Assign by simp
      next
        case False
        then have "?bs1 ! d ! operand = bs ! d ! operand"
          using dd oo by (cases "d = d0") (auto simp: nth_list_update)
        then show ?thesis using r l1 False Assign by auto
      qed
    qed
    then show ?thesis using step run len by simp
  qed
qed

subsection \<open>The steps of one call of the batcher\<close>

lemma assigns_for_mem:
  "(call \<in> set (assigns_for d operand evs)) = (Assign d operand (fst call) (snd call) \<in> set evs)"
  by (induction evs rule: assigns_for.induct) auto

lemma assigns_for_triples:
  "assigns_for d operand (concat (map (\<lambda>g. [Assign d' 0 (v0 g) (p g), Assign d' 1 (v1 g) (p g),
       Assign d' 2 (v2 g) (p g)]) gs)) =
   (if d = d' \<and> operand \<in> {0, 1, 2}
    then map (\<lambda>g. ((if operand = 0 then v0 g else if operand = 1 then v1 g else v2 g), p g)) gs
    else [])"
  by (induction gs) auto

lemma assigns_for_base:
  "assigns_for d operand [Assign d' 0 v0 p, Assign d' 1 v1 p, Assign d' 2 v2 p] =
   (if d = d' \<and> operand \<in> {0, 1, 2}
    then [((if operand = 0 then v0 else if operand = 1 then v1 else v2), p)]
    else [])"
  by auto

lemma assigns_for_dimension_events:
  assumes "0 < degree" "1 \<le> d'" "d' \<le> D - 2" "D \<le> int (length A)" "length work = 2"
  shows "assigns_for d operand (dimension_events A work degree D off d') =
    (if d = nat d' \<and> operand \<in> {0, 1, 2}
     then map (\<lambda>g. ((if operand = 0
                       then matrix_view_of_vector (work ! nat ((d' - 1) mod 2)) (degree ^ nat d') degree
                              (degree ^ nat d' * degree * g)
                      else if operand = 1 then A ! nat d'
                      else matrix_view_of_vector (work ! nat (d' mod 2)) (degree ^ nat d') degree
                              (degree ^ nat d' * degree * g)),
                     off * degree ^ nat (D - d' - 1) + g))
            [0 .. degree ^ nat (D - d' - 1) - 1]
     else [])"
  unfolding dimension_events_explicit [OF assms] assigns_for_triples ..

lemma assigns_for_intermediate:
  assumes "0 < degree" "D \<le> int (length A)" "length work = 2"
  shows "concat (map (\<lambda>d'. assigns_for d operand (dimension_events A work degree D off d')) [1 .. D - 2]) =
    (if 1 \<le> int d \<and> int d \<le> D - 2 then assigns_for d operand (dimension_events A work degree D off (int d)) else [])"
proof -
  let ?X = "assigns_for d operand (dimension_events A work degree D off (int d))"
  have "map (\<lambda>d'. assigns_for d operand (dimension_events A work degree D off d')) [1 .. D - 2] =
        map (\<lambda>d'. if d' = int d then ?X else []) [1 .. D - 2]"
  proof (rule map_cong [OF refl])
    fix d' assume "d' \<in> set [1 .. D - 2]"
    then have d': "1 \<le> d'" "d' \<le> D - 2" by simp_all
    show "assigns_for d operand (dimension_events A work degree D off d') =
        (if d' = int d then ?X else [])"
    proof (cases "d' = int d")
      case True
      then show ?thesis by simp
    next
      case False
      then have "d \<noteq> nat d'" using d' by auto
      then have "assigns_for d operand (dimension_events A work degree D off d') = []"
        by (simp only: assigns_for_dimension_events [OF assms(1) d' assms(2,3)] if_False simp_thms)
      then show ?thesis using False by simp
    qed
  qed
  then have eq: "concat (map (\<lambda>d'. assigns_for d operand (dimension_events A work degree D off d')) [1 .. D - 2]) =
      concat (map (\<lambda>d'. if d' = int d then ?X else []) [1 .. D - 2])"
    by (rule arg_cong)
  show ?thesis
  proof (cases "1 \<le> int d \<and> int d \<le> D - 2")
    case True
    then have "int d \<in> set [1 .. D - 2]" by simp
    then have "concat (map (\<lambda>d'. if d' = int d then ?X else []) [1 .. D - 2]) = ?X"
      by (intro concat_map_single) simp_all
    then show ?thesis unfolding eq using True by (simp only: if_True simp_thms)
  next
    case False
    then have "int d \<notin> set [1 .. D - 2]" by auto
    then have "concat (map (\<lambda>d'. if d' = int d then ?X else []) [1 .. D - 2]) = []"
      by (rule concat_map_none)
    then show ?thesis unfolding eq using False by (simp only: if_False simp_thms)
  qed
qed

text \<open>The operands and positions assigned to each batch by one call of the batcher.\<close>

lemma assigns_for_kronmult:
  assumes "kronmult_precondition A x y work n off pde"
  shows "assigns_for d operand (kronmult_events A x y work n off pde) =
    (if \<not> (int d < num_dims pde \<and> operand \<in> {0, 1, 2}) then []
     else if d = 0 then
       [((if operand = 0 then A ! 0
          else if operand = 1
            then matrix_view_of_vector x (get_degree pde) (get_degree pde ^ nat (num_dims pde - 1)) 0
          else matrix_view_of_vector (if num_dims pde = 1 then y else work ! 0) (get_degree pde)
                 (get_degree pde ^ nat (num_dims pde - 1)) 0), off)]
     else if int d = num_dims pde - 1 then
       [((if operand = 0
            then matrix_view_of_vector (work ! nat (num_dims pde mod 2))
                   (get_degree pde ^ nat (num_dims pde - 1)) (get_degree pde) 0
          else if operand = 1 then A ! nat (num_dims pde - 1)
          else matrix_view_of_vector y (get_degree pde ^ nat (num_dims pde - 1)) (get_degree pde) 0),
         off)]
     else
       map (\<lambda>g. ((if operand = 0
                    then matrix_view_of_vector (work ! nat ((int d - 1) mod 2)) (get_degree pde ^ d)
                           (get_degree pde) (get_degree pde ^ d * get_degree pde * g)
                  else if operand = 1 then A ! d
                  else matrix_view_of_vector (work ! nat (int d mod 2)) (get_degree pde ^ d)
                           (get_degree pde) (get_degree pde ^ d * get_degree pde * g)),
                 off * get_degree pde ^ nat (num_dims pde - int d - 1) + g))
         [0 .. get_degree pde ^ nat (num_dims pde - int d - 1) - 1])"
proof -
  let ?D = "num_dims pde" and ?deg = "get_degree pde"
  from assms have deg: "0 < ?deg" and lenA: "?D \<le> int (length A)"
    and lenw: "int (length work) = min (?D - 1) 2"
    by (simp_all add: kronmult_precondition_def)
  then have D: "1 \<le> ?D" by (auto simp: min_def split: if_splits)
  show ?thesis
  proof (cases "?D = 1")
    case True
    have ex: "kronmult_events A x y work n off pde = kron_base (A ! 0) x y 0 off ?deg ?D"
      using True kronmult_events_explicit [OF assms] by simp
    have base: "assigns_for d operand (kron_base (A ! 0) x y 0 off ?deg ?D) =
          (if d = 0 \<and> operand \<in> {0, 1, 2}
           then [((if operand = 0 then A ! 0
                   else if operand = 1 then matrix_view_of_vector x ?deg (?deg ^ nat (?D - 1)) 0
                   else matrix_view_of_vector y ?deg (?deg ^ nat (?D - 1)) 0), off)]
           else [])"
      using deg D by (simp only: kron_base_explicit assigns_for_base)
    have "(int d < ?D) = (d = 0)" using True by auto
    then show ?thesis unfolding ex base using True by simp
  next
    case False
    then have D2: "2 \<le> ?D" using D by simp
    have ex: "kronmult_events A x y work n off pde =
        kron_base (A ! 0) x (work ! 0) 0 off ?deg ?D @
        concat (map (dimension_events A work ?deg ?D off) [1 .. ?D - 2]) @
        last_dimension_events A y work ?deg ?D off"
      using False kronmult_events_explicit [OF assms] by simp
    have base: "assigns_for d operand (kron_base (A ! 0) x (work ! 0) 0 off ?deg ?D) =
        (if d = 0 \<and> operand \<in> {0, 1, 2}
         then [((if operand = 0 then A ! 0
                 else if operand = 1 then matrix_view_of_vector x ?deg (?deg ^ nat (?D - 1)) 0
                 else matrix_view_of_vector (work ! 0) ?deg (?deg ^ nat (?D - 1)) 0), off)]
         else [])"
      using deg D by (simp only: kron_base_explicit assigns_for_base)
    have last: "assigns_for d operand (last_dimension_events A y work ?deg ?D off) =
        (if d = nat (?D - 1) \<and> operand \<in> {0, 1, 2}
         then [((if operand = 0
                   then matrix_view_of_vector (work ! nat (?D mod 2)) (?deg ^ nat (?D - 1)) ?deg 0
                 else if operand = 1 then A ! nat (?D - 1)
                 else matrix_view_of_vector y (?deg ^ nat (?D - 1)) ?deg 0), off)]
         else [])"
      using deg D2 lenA lenw
      by (simp only: last_dimension_events_explicit assigns_for_base)
    have middle: "concat (map (\<lambda>d'. assigns_for d operand (dimension_events A work ?deg ?D off d'))
          [1 .. ?D - 2]) =
        (if 1 \<le> int d \<and> int d \<le> ?D - 2 \<and> operand \<in> {0, 1, 2} then
         map (\<lambda>g. ((if operand = 0
                    then matrix_view_of_vector (work ! nat ((int d - 1) mod 2)) (?deg ^ d)
                           ?deg (?deg ^ d * ?deg * g)
                  else if operand = 1 then A ! d
                  else matrix_view_of_vector (work ! nat (int d mod 2)) (?deg ^ d)
                           ?deg (?deg ^ d * ?deg * g)),
                 off * ?deg ^ nat (?D - int d - 1) + g))
         [0 .. ?deg ^ nat (?D - int d - 1) - 1] else [])"
    proof (cases "?D = 2")
      case True
      then show ?thesis by simp
    next
      case False
      then have w2: "length work = 2" using lenw D2 by simp
      show ?thesis
        unfolding assigns_for_intermediate [OF deg lenA w2]
        using assigns_for_dimension_events [OF deg _ _ lenA w2, of "int d" d operand off]
        by simp
    qed
    have split: "assigns_for d operand (kronmult_events A x y work n off pde) =
        assigns_for d operand (kron_base (A ! 0) x (work ! 0) 0 off ?deg ?D) @
        concat (map (\<lambda>d'. assigns_for d operand (dimension_events A work ?deg ?D off d'))
          [1 .. ?D - 2]) @
        assigns_for d operand (last_dimension_events A y work ?deg ?D off)"
      unfolding ex
      by (simp only: assigns_for_append assigns_for_concat map_map comp_def)
    consider "d = 0" | "1 \<le> int d" "int d \<le> ?D - 2" | "int d = ?D - 1" | "?D \<le> int d"
      by linarith
    then show ?thesis
    proof cases
      case 1
      then have "d \<noteq> nat (?D - 1)" "int d < ?D" "\<not> 1 \<le> int d" using D2 by auto
      then show ?thesis unfolding split base last middle using 1 False by simp
    next
      case 2
      then have "d \<noteq> 0" "d \<noteq> nat (?D - 1)" "int d < ?D" "int d \<noteq> ?D - 1" by auto
      then show ?thesis unfolding split base last middle using 2 False by simp
    next
      case 3
      then have "d \<noteq> 0" "d = nat (?D - 1)" "int d < ?D" "\<not> int d \<le> ?D - 2" using D2 by auto
      then show ?thesis unfolding split base last middle using 3 False D2 by simp
    next
      case 4
      then have "d \<noteq> 0" "d \<noteq> nat (?D - 1)" "\<not> int d < ?D" "\<not> int d \<le> ?D - 2" using D2 by auto
      then show ?thesis unfolding split base last middle using False by simp
    qed
  qed
qed

subsection \<open>Allocation\<close>

lemma num_gemms_at_pos: "0 < degree \<Longrightarrow> 0 < num_gemms_at degree D d"
  by (simp add: num_gemms_at_def)

lemma compute_batch_size_value:
  "0 < degree \<Longrightarrow> 0 \<le> d \<Longrightarrow> d < D \<Longrightarrow> compute_batch_size degree D d = Inr (num_gemms_at degree D d)"
  by (simp add: compute_batch_size_def num_gemms_at_def)

lemma allocate_remaining_explicit:
  assumes "0 < get_degree pde"
  shows "list_all (\<lambda>d. 1 \<le> d \<and> d < num_dims pde) ds \<Longrightarrow>
    (if 0 < num_terms pde * num_elems \<and> list_all (\<lambda>d. 0 < mat_stride (get_coefficients pde 0 d)) ds
     then allocate_remaining pde num_elems ds acc = Inr (acc @ map (allocated_operands pde num_elems) ds)
     else ds = [] \<or> isl (allocate_remaining pde num_elems ds acc))"
proof (induction ds arbitrary: acc)
  case Nil
  then show ?case by simp
next
  case (Cons d ds)
  then have d: "1 \<le> d" "d < num_dims pde" and ds: "list_all (\<lambda>d. 1 \<le> d \<and> d < num_dims pde) ds"
    by simp_all
  let ?G = "num_gemms_at (get_degree pde) (num_dims pde) d"
  have G: "0 < ?G" using assms by (rule num_gemms_at_pos)
  have cbs: "compute_batch_size (get_degree pde) (num_dims pde) d = Inr ?G"
    using assms d by (simp add: compute_batch_size_value)
  have cd: "compute_dimensions (get_degree pde) (num_dims pde) d =
      Inr \<lparr>rows_a = get_degree pde ^ nat d, cols_a = get_degree pde, rows_b = get_degree pde,
           cols_b = get_degree pde\<rparr>"
    using assms d by (simp add: compute_dimensions_def)
  have pw: "0 < get_degree pde ^ nat d" using assms by simp
  show ?case
  proof (cases "0 < num_terms pde * num_elems")
    case False
    then have "\<not> 0 < ?G * num_terms pde * num_elems"
      using G by (simp add: zero_less_mult_iff mult.assoc)
    then have "isl (allocate_remaining pde num_elems (d # ds) acc)"
      by (simp add: cbs cd on_success_def Let_def operands_set_def batch_new_def)
    then show ?thesis using False by simp
  next
    case True
    then have n: "0 < ?G * num_terms pde * num_elems"
      using G by (simp add: zero_less_mult_iff mult.assoc)
    show ?thesis
    proof (cases "0 < mat_stride (get_coefficients pde 0 d)")
      case False
      then have "isl (allocate_remaining pde num_elems (d # ds) acc)"
        using n pw assms
        by (simp add: cbs cd on_success_def Let_def operands_set_def batch_new_def)
      then show ?thesis using False by simp
    next
      case s: True
      have step: "allocate_remaining pde num_elems (d # ds) acc =
          allocate_remaining pde num_elems ds (acc @ [allocated_operands pde num_elems d])"
        using n pw assms s d
        by (simp add: cbs cd on_success_def Let_def operands_set_def batch_new_def
            allocated_operands_def)
      show ?thesis
        using Cons.IH [OF ds, of "acc @ [allocated_operands pde num_elems d]"] True s
        unfolding step by (auto split: if_splits)
    qed
  qed
qed

lemma allocate_batches_explicit:
  "allocate_batches pde num_elems =
     Inr batches \<longleftrightarrow>
   allocation_ok pde num_elems \<and> batches = map (allocated_operands pde num_elems) [0 .. num_dims pde - 1]"
proof (cases "0 < num_dims pde \<and> 0 < get_degree pde")
  case False
  then show ?thesis
    by (auto simp: allocate_batches_def allocation_ok_def compute_dimensions_def on_success_def Let_def)
next
  case True
  then have D: "0 < num_dims pde" and deg: "0 < get_degree pde" by simp_all
  have cd: "compute_dimensions (get_degree pde) (num_dims pde) 0 =
      Inr \<lparr>rows_a = get_degree pde, cols_a = get_degree pde, rows_b = get_degree pde,
           cols_b = get_degree pde ^ nat (num_dims pde - 1)\<rparr>"
    using D deg by (simp add: compute_dimensions_def)
  have up: "[0 .. num_dims pde - 1] = 0 # [1 .. num_dims pde - 1]"
    using D by (simp add: upto_rec1)
  have rest: "list_all (\<lambda>d. 1 \<le> d \<and> d < num_dims pde) [1 .. num_dims pde - 1]"
    by (simp add: list_all_iff)
  have pw: "0 < get_degree pde ^ nat (num_dims pde - 1)" using deg by simp
  show ?thesis
  proof (cases "0 < num_terms pde * num_elems \<and> 0 < mat_stride (get_coefficients pde 0 0)")
    case False
    then have "isl (allocate_batches pde num_elems)"
      using deg pw
      by (auto simp: allocate_batches_def cd on_success_def Let_def operands_set_def batch_new_def)
    moreover have "\<not> allocation_ok pde num_elems"
      using False by (auto simp: allocation_ok_def up)
    ultimately show ?thesis by auto
  next
    case ok: True
    have zero: "allocated_operands pde num_elems 0 =
        [\<lparr>batch_nrows = get_degree pde, batch_ncols = get_degree pde,
            batch_stride = mat_stride (get_coefficients pde 0 0), do_trans = False,
            batch_list = replicate (nat (num_terms pde * num_elems)) None\<rparr>,
           \<lparr>batch_nrows = get_degree pde, batch_ncols = get_degree pde ^ nat (num_dims pde - 1),
            batch_stride = get_degree pde, do_trans = False,
            batch_list = replicate (nat (num_terms pde * num_elems)) None\<rparr>,
           \<lparr>batch_nrows = get_degree pde, batch_ncols = get_degree pde ^ nat (num_dims pde - 1),
            batch_stride = get_degree pde, do_trans = False,
            batch_list = replicate (nat (num_terms pde * num_elems)) None\<rparr>]"
      by (simp add: allocated_operands_def num_gemms_at_def Let_def)
    have step: "allocate_batches pde num_elems =
        allocate_remaining pde num_elems [1 .. num_dims pde - 1] [allocated_operands pde num_elems 0]"
      using ok deg pw unfolding zero
      by (simp add: allocate_batches_def cd on_success_def Let_def operands_set_def batch_new_def)
    show ?thesis
      using allocate_remaining_explicit [OF deg rest, of num_elems "[allocated_operands pde num_elems 0]"] ok D deg
      unfolding step up
      by (auto simp: allocation_ok_def up split: if_splits)
  qed
qed

subsection \<open>One call of the batcher on fresh batches\<close>

lemma failures_kronmult:
  assumes "kronmult_precondition A x y work n off pde"
  shows "failures (kronmult_events A x y work n off pde) = []"
proof -
  let ?D = "num_dims pde" and ?deg = "get_degree pde"
  from assms have deg: "0 < ?deg" and lenA: "?D \<le> int (length A)"
    and lenw: "int (length work) = min (?D - 1) 2"
    by (simp_all add: kronmult_precondition_def)
  then have D: "1 \<le> ?D" by (auto simp: min_def split: if_splits)
  have base: "failures (kron_base A0 x' y' 0 off ?deg ?D) = []" for A0 x' y'
    using deg D by (simp add: kron_base_explicit)
  show ?thesis
  proof (cases "?D = 1")
    case True
    then show ?thesis using kronmult_events_explicit [OF assms] base by simp
  next
    case False
    then have D2: "2 \<le> ?D" using D by simp
    have last: "failures (last_dimension_events A y work ?deg ?D off) = []"
      using deg D2 lenA lenw by (simp add: last_dimension_events_explicit)
    have mid: "concat (map failures (map (dimension_events A work ?deg ?D off) [1 .. ?D - 2])) = []"
    proof -
      have "failures (dimension_events A work ?deg ?D off d) = []" if "d \<in> set [1 .. ?D - 2]" for d
      proof -
        from that have d: "1 \<le> d" "d \<le> ?D - 2" by simp_all
        then have w2: "length work = 2" using lenw by simp
        show ?thesis
          unfolding dimension_events_explicit [OF deg d lenA w2] failures_concat
          by (simp add: comp_def)
      qed
      then show ?thesis by simp
    qed
    show ?thesis
      using False kronmult_events_explicit [OF assms] base last mid
      by (simp add: failures_concat)
  qed
qed

lemma position_in_range:
  fixes off :: int
  assumes "0 \<le> off" "off < m" "0 \<le> g" "g < G"
  shows "0 \<le> off * G + g" "off * G + g < G * m"
proof -
  show "0 \<le> off * G + g" using assms by simp
  have "off * G + g < off * G + G" using assms by simp
  also have "\<dots> = (off + 1) * G" by (simp add: algebra_simps)
  also have "\<dots> \<le> m * G" using assms by (intro mult_right_mono) simp_all
  finally show "off * G + g < G * m" by (simp add: mult.commute)
qed

lemma allocated_operands_nth:
  assumes "operand < 3"
  shows "batch_list (allocated_operands pde num_elems d ! operand) =
       replicate (nat (num_gemms_at (get_degree pde) (num_dims pde) d * num_terms pde * num_elems)) None"
    and "length (allocated_operands pde num_elems d) = 3"
  using assms by (auto simp: allocated_operands_def Let_def less_Suc_eq numeral_3_eq_3)

lemma allocated_nth:
  assumes "d < nat (num_dims pde)"
  shows "map (allocated_operands pde num_elems) [0 .. num_dims pde - 1] ! d =
         allocated_operands pde num_elems (int d)"
proof -
  have "d < length [0 .. num_dims pde - 1]" using assms by simp
  moreover have "[0 .. num_dims pde - 1] ! d = int d"
    using assms nth_upto [of 0 d "num_dims pde - 1"] by simp
  ultimately show ?thesis by simp
qed

lemma assignable_allocated:
  assumes "d < nat (num_dims pde)" "operand < 3"
    and "fits a (allocated_operands pde num_elems (int d) ! operand)"
    and "0 \<le> p" "p < num_gemms_at (get_degree pde) (num_dims pde) (int d) * num_terms pde * num_elems"
  shows "assignable (map (allocated_operands pde num_elems) [0 .. num_dims pde - 1]) d operand (a, p)"
proof -
  have "nat p < nat (num_gemms_at (get_degree pde) (num_dims pde) (int d) * num_terms pde * num_elems)"
    using assms(4,5) by simp
  then show ?thesis
    using assms allocated_operands_nth [OF assms(2), of pde num_elems "int d"]
    by (simp add: assignable_def allocated_nth num_entries_def)
qed

lemma operator_fits:
  assumes "kronmult_precondition A x y work n off pde" "strides_ok A pde"
    and "0 \<le> d" "d < num_dims pde"
  shows "mat_nrows (A ! nat d) = get_degree pde" "mat_ncols (A ! nat d) = get_degree pde"
    "mat_stride (A ! nat d) = mat_stride (get_coefficients pde 0 d) \<or>
     mat_stride (get_coefficients pde 0 d) = 1"
proof -
  have "num_dims pde \<le> int (length A)" using assms(1) by (simp add: kronmult_precondition_def)
  then have "nat d < length A" using assms(3,4) by linarith
  then have "A ! nat d \<in> set A" by simp
  then show "mat_nrows (A ! nat d) = get_degree pde" "mat_ncols (A ! nat d) = get_degree pde"
    using assms(1) by (simp_all add: kronmult_precondition_def list_all_iff)
  have "d \<in> set [0 .. num_dims pde - 1]" using assms(3,4) by simp
  then show "mat_stride (A ! nat d) = mat_stride (get_coefficients pde 0 d) \<or>
     mat_stride (get_coefficients pde 0 d) = 1"
    using assms(2) unfolding strides_ok_def list_all_iff by blast
qed

lemma kronmult_calls_assignable:
  assumes pre: "kronmult_precondition A x y work n off pde"
    and st: "strides_ok A pde"
    and off: "off < num_terms pde * num_elems"
    and call: "call \<in> set (assigns_for d operand (kronmult_events A x y work n off pde))"
  shows "assignable (map (allocated_operands pde num_elems) [0 .. num_dims pde - 1]) d operand call"
proof -
  let ?D = "num_dims pde" and ?deg = "get_degree pde"
  let ?G = "num_gemms_at ?deg ?D (int d)"
  from pre have deg: "0 < ?deg" and off0: "0 \<le> off"
    by (simp_all add: kronmult_precondition_def)
  have in_range: "int d < ?D \<and> operand \<in> {0, 1, 2}"
    using call unfolding assigns_for_kronmult [OF pre] by (auto split: if_splits)
  then have d: "d < nat ?D" and o: "operand < 3" by auto
  have Ad: "mat_nrows (A ! d) = ?deg" "mat_ncols (A ! d) = ?deg"
    "mat_stride (A ! d) = mat_stride (get_coefficients pde 0 (int d)) \<or>
     mat_stride (get_coefficients pde 0 (int d)) = 1"
    using operator_fits [OF pre st, of "int d"] in_range by simp_all
  have goal: "assignable (map (allocated_operands pde num_elems) [0 .. ?D - 1]) d operand (a, p)"
    if "fits a (allocated_operands pde num_elems (int d) ! operand)" "0 \<le> p"
       "p < ?G * num_terms pde * num_elems" for a p
    using assignable_allocated [OF d o that] .
  consider "d = 0" | "1 \<le> int d" "int d \<le> ?D - 2" | "d \<noteq> 0" "int d = ?D - 1"
    using in_range by linarith
  then show ?thesis
  proof cases
    case 1
    have "assigns_for d operand (kronmult_events A x y work n off pde) =
        [((if operand = 0 then A ! 0
          else if operand = 1
            then matrix_view_of_vector x ?deg (?deg ^ nat (?D - 1)) 0
          else matrix_view_of_vector (if ?D = 1 then y else work ! 0) ?deg
                 (?deg ^ nat (?D - 1)) 0), off)]"
      unfolding assigns_for_kronmult [OF pre] using 1 in_range by simp
    then have c: "call = ((if operand = 0 then A ! 0
          else if operand = 1
            then matrix_view_of_vector x ?deg (?deg ^ nat (?D - 1)) 0
          else matrix_view_of_vector (if ?D = 1 then y else work ! 0) ?deg
                 (?deg ^ nat (?D - 1)) 0), off)"
      using call by simp
    have G: "?G = 1" using 1 by (simp add: num_gemms_at_def)
    have "fits (fst call) (allocated_operands pde num_elems (int d) ! operand)"
      using 1 Ad in_range unfolding c
      by (auto simp: fits_def allocated_operands_def Let_def matrix_view_of_vector_def)
    moreover have "0 \<le> snd call" "snd call < ?G * num_terms pde * num_elems"
      using off off0 G unfolding c by simp_all
    ultimately show ?thesis using goal [of "fst call" "snd call"] by simp
  next
    case 2
    then have "d \<noteq> 0" "int d \<noteq> ?D - 1" by auto
    then have "assigns_for d operand (kronmult_events A x y work n off pde) =
        map (\<lambda>g. ((if operand = 0
                    then matrix_view_of_vector (work ! nat ((int d - 1) mod 2)) (?deg ^ d)
                           ?deg (?deg ^ d * ?deg * g)
                  else if operand = 1 then A ! d
                  else matrix_view_of_vector (work ! nat (int d mod 2)) (?deg ^ d)
                           ?deg (?deg ^ d * ?deg * g)),
                 off * ?deg ^ nat (?D - int d - 1) + g))
         [0 .. ?deg ^ nat (?D - int d - 1) - 1]"
      unfolding assigns_for_kronmult [OF pre] using in_range by simp
    then have "call \<in> set (map (\<lambda>g. ((if operand = 0
                    then matrix_view_of_vector (work ! nat ((int d - 1) mod 2)) (?deg ^ d)
                           ?deg (?deg ^ d * ?deg * g)
                  else if operand = 1 then A ! d
                  else matrix_view_of_vector (work ! nat (int d mod 2)) (?deg ^ d)
                           ?deg (?deg ^ d * ?deg * g)),
                 off * ?deg ^ nat (?D - int d - 1) + g))
         [0 .. ?deg ^ nat (?D - int d - 1) - 1])"
      using call by simp
    then obtain g where g: "0 \<le> g" "g < ?deg ^ nat (?D - int d - 1)"
      and c: "call = ((if operand = 0
                    then matrix_view_of_vector (work ! nat ((int d - 1) mod 2)) (?deg ^ d)
                           ?deg (?deg ^ d * ?deg * g)
                  else if operand = 1 then A ! d
                  else matrix_view_of_vector (work ! nat (int d mod 2)) (?deg ^ d)
                           ?deg (?deg ^ d * ?deg * g)),
                 off * ?deg ^ nat (?D - int d - 1) + g)"
      by auto
    have G: "?G = ?deg ^ nat (?D - int d - 1)" using 2 by (simp add: num_gemms_at_def)
    have "fits (fst call) (allocated_operands pde num_elems (int d) ! operand)"
      using 2 Ad in_range unfolding c
      by (auto simp: fits_def allocated_operands_def Let_def matrix_view_of_vector_def)
    moreover have "0 \<le> snd call" "snd call < ?G * num_terms pde * num_elems"
      using position_in_range [OF off0 off g] unfolding c G by (simp_all add: mult.assoc)
    ultimately show ?thesis using goal [of "fst call" "snd call"] by simp
  next
    case 3
    have "assigns_for d operand (kronmult_events A x y work n off pde) =
        [((if operand = 0
            then matrix_view_of_vector (work ! nat (?D mod 2))
                   (?deg ^ nat (?D - 1)) ?deg 0
          else if operand = 1 then A ! nat (?D - 1)
          else matrix_view_of_vector y (?deg ^ nat (?D - 1)) ?deg 0),
         off)]"
      unfolding assigns_for_kronmult [OF pre] using 3 in_range by simp
    then have c: "call = ((if operand = 0
            then matrix_view_of_vector (work ! nat (?D mod 2))
                   (?deg ^ nat (?D - 1)) ?deg 0
          else if operand = 1 then A ! nat (?D - 1)
          else matrix_view_of_vector y (?deg ^ nat (?D - 1)) ?deg 0),
         off)"
      using call by simp
    have G: "?G = 1" using 3 by (simp add: num_gemms_at_def)
    have nd: "nat (?D - 1) = d" using 3 by simp
    have "fits (fst call) (allocated_operands pde num_elems (int d) ! operand)"
      using 3(1) Ad in_range unfolding c nd
      by (auto simp: fits_def allocated_operands_def Let_def matrix_view_of_vector_def)
    moreover have "0 \<le> snd call" "snd call < ?G * num_terms pde * num_elems"
      using off off0 G unfolding c by simp_all
    ultimately show ?thesis using goal [of "fst call" "snd call"] by simp
  qed
qed

lemma kronmult_positions:
  assumes pre: "kronmult_precondition A x y work n off pde"
  shows "map snd (assigns_for d operand (kronmult_events A x y work n off pde)) =
    (if int d < num_dims pde \<and> operand \<in> {0, 1, 2}
     then map (\<lambda>g. off * num_gemms_at (get_degree pde) (num_dims pde) (int d) + g)
            [0 .. num_gemms_at (get_degree pde) (num_dims pde) (int d) - 1]
     else [])"
proof -
  let ?D = "num_dims pde" and ?deg = "get_degree pde"
  consider "\<not> (int d < ?D \<and> operand \<in> {0, 1, 2})"
    | "int d < ?D" "operand \<in> {0, 1, 2}" "d = 0"
    | "int d < ?D" "operand \<in> {0, 1, 2}" "d \<noteq> 0" "int d = ?D - 1"
    | "int d < ?D" "operand \<in> {0, 1, 2}" "d \<noteq> 0" "int d \<noteq> ?D - 1"
    by blast
  then show ?thesis
  proof cases
    case 1
    then show ?thesis unfolding assigns_for_kronmult [OF pre] by (simp only: if_True if_False simp_thms list.map)
  next
    case 2
    then show ?thesis unfolding assigns_for_kronmult [OF pre]
      by (simp add: num_gemms_at_def)
  next
    case 3
    then show ?thesis unfolding assigns_for_kronmult [OF pre]
      by (simp add: num_gemms_at_def)
  next
    case 4
    then show ?thesis unfolding assigns_for_kronmult [OF pre]
      by (simp add: num_gemms_at_def comp_def)
  qed
qed

lemma kronmult_positions_distinct:
  assumes pre: "kronmult_precondition A x y work n off pde"
  shows "distinct (map snd (assigns_for d operand (kronmult_events A x y work n off pde)))"
  unfolding kronmult_positions [OF pre]
  by (simp add: distinct_map inj_on_def)

section \<open>Properties of the Kronmult batcher\<close>

lemma allocated_assigned_count:
  assumes "operand < 3"
  shows "assigned_count (allocated_operands pde num_elems d ! operand) = 0"
  using allocated_operands_nth(1) [OF assms, of pde num_elems d]
  by (simp add: assigned_count_def)

lemma kronmult_success:
  assumes pre: "kronmult_precondition A x y work (num_dims pde) off pde"
    and st: "strides_ok A pde"
    and off: "off < num_terms pde * num_elems"
  shows "\<exists>batches'.
     kronmult_to_batch_sets A x y work (map (allocated_operands pde num_elems) [0 .. num_dims pde - 1])
       off pde = Inr batches' \<and>
     length batches' = nat (num_dims pde) \<and>
     (\<forall>d operand. d < nat (num_dims pde) \<longrightarrow> operand < 3 \<longrightarrow>
        length (batch_list (batches' ! d ! operand)) =
          nat (num_gemms_at (get_degree pde) (num_dims pde) (int d) * num_terms pde * num_elems) \<and>
        assigned_count (batches' ! d ! operand) =
          nat (num_gemms_at (get_degree pde) (num_dims pde) (int d)))"
proof -
  let ?D = "num_dims pde"
  let ?bs = "map (allocated_operands pde num_elems) [0 .. ?D - 1]"
  let ?evs = "kronmult_events A x y work ?D off pde"
  from pre have D: "1 \<le> ?D" by (auto simp: kronmult_precondition_def min_def split: if_splits)
  have len: "length ?bs = nat ?D" by simp
  have size: "int (length ?bs) = ?D" using D by simp
  from run_events_success [of ?evs ?bs, OF failures_kronmult [OF pre] kronmult_positions_distinct [OF pre]
      kronmult_calls_assignable [OF pre st off]]
  obtain bs' where run: "run_events ?evs ?bs = Inr bs'" and l: "length bs' = length ?bs"
    and eff: "\<And>d operand. d < length ?bs \<Longrightarrow> operand < length (?bs ! d) \<Longrightarrow>
        length (bs' ! d) = length (?bs ! d) \<and>
        length (batch_list (bs' ! d ! operand)) = length (batch_list (?bs ! d ! operand)) \<and>
        assigned_count (bs' ! d ! operand) =
          assigned_count (?bs ! d ! operand) + length (assigns_for d operand ?evs)"
    by blast
  have "length (batch_list (bs' ! d ! operand)) =
          nat (num_gemms_at (get_degree pde) ?D (int d) * num_terms pde * num_elems) \<and>
        assigned_count (bs' ! d ! operand) = nat (num_gemms_at (get_degree pde) ?D (int d))"
    if d: "d < nat ?D" and o: "operand < 3" for d operand
  proof -
    have nth: "?bs ! d = allocated_operands pde num_elems (int d)"
      using allocated_nth [OF d] .
    have "length (assigns_for d operand ?evs) = length (map snd (assigns_for d operand ?evs))"
      by simp
    also have "\<dots> = nat (num_gemms_at (get_degree pde) ?D (int d))"
      unfolding kronmult_positions [OF pre] using d o by auto
    finally have n: "length (assigns_for d operand ?evs) = nat (num_gemms_at (get_degree pde) ?D (int d))" .
    show ?thesis
      using eff [of d operand] d o n allocated_operands_nth [OF o, of pde num_elems "int d"]
        allocated_assigned_count [OF o, of pde num_elems "int d"]
      unfolding nth by simp
  qed
  then show ?thesis
    using run l len size unfolding kronmult_to_batch_sets_def by auto
qed

lemma all_assigned:
  assumes "assigned_count b = length (batch_list b)" "i < length (batch_list b)"
  shows "batch_list b ! i \<noteq> None"
proof -
  have "length (filter (\<lambda>ptr. ptr \<noteq> None) (batch_list b)) +
        length (filter (\<lambda>ptr. \<not> ptr \<noteq> None) (batch_list b)) = length (batch_list b)"
    by (rule sum_length_filter_compl)
  then have "filter (\<lambda>ptr. \<not> ptr \<noteq> None) (batch_list b) = []"
    using assms(1) by (simp add: assigned_count_def del: not_None_eq)
  then have "\<forall>ptr \<in> set (batch_list b). ptr \<noteq> None"
    by (simp add: filter_empty_conv del: not_None_eq)
  then show ?thesis using assms(2) nth_mem by blast
qed

lemma gemm_count_full:
  assumes "\<And>operand. operand < 3 \<Longrightarrow> length (batch_list (operands ! operand)) = m \<and>
             assigned_count (operands ! operand) = m"
  shows "gemm_count operands = m"
proof -
  have a: "length (batch_list (operands ! 0)) = m" "assigned_count (operands ! 0) = m"
    and b: "length (batch_list (operands ! 1)) = m" "assigned_count (operands ! 1) = m"
    and c: "length (batch_list (operands ! 2)) = m" "assigned_count (operands ! 2) = m"
    using assms [of 0] assms [of 1] assms [of 2] by simp_all
  have "filter (\<lambda>i. batch_list (operands ! 0) ! i \<noteq> None \<and> batch_list (operands ! 1) ! i \<noteq> None \<and>
            batch_list (operands ! 2) ! i \<noteq> None) [0..<m] = [0..<m]"
    using all_assigned [of "operands ! 0"] all_assigned [of "operands ! 1"]
      all_assigned [of "operands ! 2"] a b c
    by (simp add: filter_id_conv del: not_None_eq)
  then show ?thesis
    unfolding gemm_count_def ready_slots_def a by simp
qed

lemma precondition_one_dimension:
  assumes "kronmult_precondition A x y work n off pde" "num_dims pde = 1"
  shows "work = []"
  using assms by (simp add: kronmult_precondition_def)

lemma example_precondition:
  assumes "1 \<le> D" "0 < degree" "w = nat (min (D - 1) 2)"
  shows "kronmult_precondition (example_operators D degree)
     (example_vector Batch_input 0 (degree ^ nat D)) (example_vector Reduction_space 0 (degree ^ nat D))
     (map (\<lambda>i. example_vector Batch_intermediate (int i * degree ^ nat D) (degree ^ nat D)) [0..<w])
     D 0 (example_pde D 1 degree)"
  using assms
  by (auto simp: kronmult_precondition_def example_operators_def example_vector_def example_pde_def
      matrix_view_of_matrix_def list_all_iff)

lemma example_strides_ok:
  "strides_ok (example_operators D degree) (example_pde D T degree)"
proof -
  have "mat_stride (example_operators D degree ! nat d) = 4 * degree" if "d \<in> set [0 .. D - 1]" for d
  proof -
    from that have d: "0 \<le> d" "d \<le> D - 1" by simp_all
    then have "[0 .. D - 1] ! nat d = d" using nth_upto [of 0 "nat d" "D - 1"] by simp
    moreover have "nat d < length [0 .. D - 1]" using d by simp
    ultimately show ?thesis
      by (simp add: example_operators_def matrix_view_of_matrix_def example_pde_def)
  qed
  then show ?thesis
    by (simp add: strides_ok_def list_all_iff example_pde_def)
qed

lemma example_allocation_ok:
  "0 < D \<Longrightarrow> 0 < degree \<Longrightarrow> 0 < T * num_elems \<Longrightarrow> allocation_ok (example_pde D T degree) num_elems"
  by (simp add: allocation_ok_def example_pde_def list_all_iff)

text \<open>
  Claim C5. For a PDE with one dimension, when its preconditions hold,
  \<^verbatim>\<open>kronmult_to_batch_sets\<close> is three assignments and nothing else: one slot, at
  \<^verbatim>\<open>batch_offset\<close>, in each of the three operand lists of the single batch set.
  They are the operands of one gemm, whose output view starts at the first element
  of the output vector \<open>y\<close>; there is no work vector.
\<close>

theorem kronmult_one_dimension:
  assumes "num_dims pde = 1"
    and "kronmult_precondition A x y work (int (length batches)) off pde"
  shows "kronmult_to_batch_sets A x y work batches off pde =
           run_events
             [Assign 0 0 (A ! 0) off,
              Assign 0 1 (matrix_view_of_vector x (get_degree pde) 1 0) off,
              Assign 0 2 (matrix_view_of_vector y (get_degree pde) 1 0) off] batches \<and>
         mat_data (matrix_view_of_vector y (get_degree pde) 1 0) = vec_data y \<and>
         work = [] \<and> length batches = 1"
proof -
  have deg: "0 < get_degree pde" using assms(2) by (simp add: kronmult_precondition_def)
  have "kronmult_events A x y work (int (length batches)) off pde =
      kron_base (A ! 0) x y 0 off (get_degree pde) (num_dims pde)"
    using kronmult_events_explicit [OF assms(2)] assms(1) by simp
  then have "kronmult_events A x y work (int (length batches)) off pde =
      [Assign 0 0 (A ! 0) off,
       Assign 0 1 (matrix_view_of_vector x (get_degree pde) 1 0) off,
       Assign 0 2 (matrix_view_of_vector y (get_degree pde) 1 0) off]"
    using deg assms(1) by (simp add: kron_base_explicit)
  moreover have "length batches = 1"
    using assms by (simp add: kronmult_precondition_def)
  ultimately show ?thesis
    using precondition_one_dimension [OF assms(2,1)]
    by (simp add: kronmult_to_batch_sets_def matrix_view_of_vector_def)
qed

theorem kronmult_one_dimension_witness:
  "num_dims (example_pde 1 1 2) = 1 \<and>
   kronmult_precondition (example_operators 1 2) (example_vector Batch_input 0 2)
     (example_vector Reduction_space 0 2) [] (int (length (map (allocated_operands (example_pde 1 1 2) 1) [0]))) 0
     (example_pde 1 1 2) \<and>
   kronmult_to_batch_sets (example_operators 1 2) (example_vector Batch_input 0 2)
     (example_vector Reduction_space 0 2) [] (map (allocated_operands (example_pde 1 1 2) 1) [0]) 0
     (example_pde 1 1 2) =
     Inr [[\<lparr>batch_nrows = 2, batch_ncols = 2, batch_stride = 8, do_trans = False,
            batch_list = [Some (Coefficients 0 0, 16)]\<rparr>,
           \<lparr>batch_nrows = 2, batch_ncols = 1, batch_stride = 2, do_trans = False,
            batch_list = [Some (Batch_input, 0)]\<rparr>,
           \<lparr>batch_nrows = 2, batch_ncols = 1, batch_stride = 2, do_trans = False,
            batch_list = [Some (Reduction_space, 0)]\<rparr>]]"
proof -
  have D: "num_dims (example_pde 1 1 2) = 1" by (simp add: example_pde_def)
  have pre: "kronmult_precondition (example_operators 1 2) (example_vector Batch_input 0 2)
     (example_vector Reduction_space 0 2) [] (int (length (map (allocated_operands (example_pde 1 1 2) 1) [0]))) 0
     (example_pde 1 1 2)"
    using example_precondition [of 1 2 0] by simp
  show ?thesis
    using D pre kronmult_one_dimension [OF D pre]
    by (simp add: example_operators_def example_vector_def example_pde_def allocated_operands_def
        num_gemms_at_def matrix_view_of_matrix_def matrix_view_of_vector_def on_success_def
        assign_entry_def num_entries_def Let_def)
qed

text \<open>
  Claim C3, as stated: the gemm of the highest dimension \<open>D - 1\<close> reads
  \<^verbatim>\<open>work[(D - 1) mod 2]\<close>. With three dimensions, degree 2 and the two work vectors
  at offsets 0 and 8 of the intermediate workspace, the input assigned for dimension
  2 is at offset 8, which is \<^verbatim>\<open>work[1]\<close>, while \<^verbatim>\<open>work[(3 - 1) mod 2]\<close> is
  \<^verbatim>\<open>work[0]\<close> at offset 0.
\<close>

theorem kronmult_last_dimension_counterexample:
  "map (\<lambda>call. mat_data (fst call))
     (assigns_for 2 0
       (kronmult_events (example_operators 3 2) (example_vector Batch_input 0 8)
          (example_vector Reduction_space 0 8)
          [example_vector Batch_intermediate 0 8, example_vector Batch_intermediate 8 8] 3 0
          (example_pde 3 1 2))) = [(Batch_intermediate, 8)] \<and>
   vec_data ([example_vector Batch_intermediate 0 8, example_vector Batch_intermediate 8 8] !
              nat ((3 - 1) mod 2)) = (Batch_intermediate, 0)"
proof -
  have pre: "kronmult_precondition (example_operators 3 2) (example_vector Batch_input 0 8)
          (example_vector Reduction_space 0 8)
          [example_vector Batch_intermediate 0 8, example_vector Batch_intermediate 8 8] 3 0
          (example_pde 3 1 2)"
    using example_precondition [of 3 2 2] by (simp add: upt_rec numeral_2_eq_2)
  show ?thesis
    unfolding assigns_for_kronmult [OF pre]
    by (simp add: example_pde_def example_vector_def matrix_view_of_vector_def)
qed

text \<open>
  Claim C3, amended. For a PDE with \<open>D \<ge> 2\<close> dimensions, when the preconditions
  hold, \<^verbatim>\<open>kronmult_to_batch_sets\<close> enqueues one gemm for the highest dimension
  \<open>D - 1\<close>: its input is a view of \<^verbatim>\<open>work[D mod 2]\<close> (the work vector that dimension
  \<open>D - 2\<close> wrote), from its first element, its operator is \<^verbatim>\<open>A[D - 1]\<close>, and its output
  is a view of the output vector \<open>y\<close>, from its first element.
\<close>

theorem kronmult_last_dimension:
  assumes "2 \<le> num_dims pde"
    and "kronmult_precondition A x y work n off pde"
  shows "assigns_for (nat (num_dims pde - 1)) 0 (kronmult_events A x y work n off pde) =
           [(matrix_view_of_vector (work ! nat (num_dims pde mod 2))
               (get_degree pde ^ nat (num_dims pde - 1)) (get_degree pde) 0, off)] \<and>
         mat_data (matrix_view_of_vector (work ! nat (num_dims pde mod 2))
               (get_degree pde ^ nat (num_dims pde - 1)) (get_degree pde) 0) =
           vec_data (work ! nat (num_dims pde mod 2)) \<and>
         assigns_for (nat (num_dims pde - 1)) 1 (kronmult_events A x y work n off pde) =
           [(A ! nat (num_dims pde - 1), off)] \<and>
         assigns_for (nat (num_dims pde - 1)) 2 (kronmult_events A x y work n off pde) =
           [(matrix_view_of_vector y (get_degree pde ^ nat (num_dims pde - 1)) (get_degree pde) 0, off)] \<and>
         mat_data (matrix_view_of_vector y (get_degree pde ^ nat (num_dims pde - 1)) (get_degree pde) 0) =
           vec_data y"
proof -
  have d: "int (nat (num_dims pde - 1)) < num_dims pde" "nat (num_dims pde - 1) \<noteq> 0"
    "int (nat (num_dims pde - 1)) = num_dims pde - 1"
    using assms(1) by simp_all
  show ?thesis
    unfolding assigns_for_kronmult [OF assms(2)]
    using d by (simp add: matrix_view_of_vector_def)
qed

theorem kronmult_last_dimension_witness:
  "2 \<le> num_dims (example_pde 3 1 2) \<and>
   kronmult_precondition (example_operators 3 2) (example_vector Batch_input 0 8)
          (example_vector Reduction_space 0 8)
          [example_vector Batch_intermediate 0 8, example_vector Batch_intermediate 8 8] 3 0
          (example_pde 3 1 2) \<and>
   assigns_for 2 0
       (kronmult_events (example_operators 3 2) (example_vector Batch_input 0 8)
          (example_vector Reduction_space 0 8)
          [example_vector Batch_intermediate 0 8, example_vector Batch_intermediate 8 8] 3 0
          (example_pde 3 1 2)) =
     [(\<lparr>mat_data = (Batch_intermediate, 8), mat_nrows = 4, mat_ncols = 2, mat_stride = 4\<rparr>, 0)] \<and>
   assigns_for 2 2
       (kronmult_events (example_operators 3 2) (example_vector Batch_input 0 8)
          (example_vector Reduction_space 0 8)
          [example_vector Batch_intermediate 0 8, example_vector Batch_intermediate 8 8] 3 0
          (example_pde 3 1 2)) =
     [(\<lparr>mat_data = (Reduction_space, 0), mat_nrows = 4, mat_ncols = 2, mat_stride = 4\<rparr>, 0)]"
proof -
  have D: "2 \<le> num_dims (example_pde 3 1 2)" by (simp add: example_pde_def)
  have pre: "kronmult_precondition (example_operators 3 2) (example_vector Batch_input 0 8)
          (example_vector Reduction_space 0 8)
          [example_vector Batch_intermediate 0 8, example_vector Batch_intermediate 8 8] 3 0
          (example_pde 3 1 2)"
    using example_precondition [of 3 2 2] by (simp add: upt_rec numeral_2_eq_2)
  show ?thesis
    using D pre kronmult_last_dimension [OF D pre]
    by (simp add: example_pde_def example_vector_def matrix_view_of_vector_def)
qed

text \<open>
  Claim C2, as stated: the gemms of an intermediate dimension \<open>d\<close> have a first
  operand of shape \<open>(degree^(d+1), degree)\<close>. With three dimensions and degree 2, the
  two gemms of dimension 1 have a first operand of shape \<open>(2, 2)\<close>, while
  \<open>degree^(1+1)\<close> is 4.
\<close>

theorem kronmult_intermediate_dimensions_counterexample:
  "map (\<lambda>call. (mat_nrows (fst call), mat_ncols (fst call)))
     (assigns_for 1 0
       (kronmult_events (example_operators 3 2) (example_vector Batch_input 0 8)
          (example_vector Reduction_space 0 8)
          [example_vector Batch_intermediate 0 8, example_vector Batch_intermediate 8 8] 3 0
          (example_pde 3 1 2))) = [(2, 2), (2, 2)] \<and>
   get_degree (example_pde 3 1 2) ^ (1 + 1) = 4"
proof -
  have pre: "kronmult_precondition (example_operators 3 2) (example_vector Batch_input 0 8)
          (example_vector Reduction_space 0 8)
          [example_vector Batch_intermediate 0 8, example_vector Batch_intermediate 8 8] 3 0
          (example_pde 3 1 2)"
    using example_precondition [of 3 2 2] by (simp add: upt_rec numeral_2_eq_2)
  show ?thesis
    unfolding assigns_for_kronmult [OF pre]
    by (simp add: example_pde_def example_vector_def matrix_view_of_vector_def upto_rec1)
qed

text \<open>
  Claim C2, amended. For a PDE with \<open>D \<ge> 3\<close> dimensions and an intermediate
  dimension \<open>d\<close> in \<open>1..D-2\<close>, when the preconditions hold,
  \<^verbatim>\<open>kronmult_to_batch_sets\<close> enqueues \<open>degree^(D-1-d)\<close> gemms for that dimension, at
  the positions \<^verbatim>\<open>batch_offset * degree^(D-1-d) + gemm\<close>. Each multiplies a view of
  shape \<open>(degree^d, degree)\<close> of \<^verbatim>\<open>work[(d-1) mod 2]\<close> by the transpose of the
  \<open>(degree, degree)\<close> operator \<^verbatim>\<open>A[d]\<close> into a view of shape \<open>(degree^d, degree)\<close> of
  \<^verbatim>\<open>work[d mod 2]\<close>; the batches allocated for the dimension have these shapes, the
  second one transposed.
\<close>

theorem kronmult_intermediate_dimensions:
  assumes "3 \<le> num_dims pde" and "1 \<le> d" and "d \<le> num_dims pde - 2"
    and "kronmult_precondition A x y work n off pde"
  shows "(\<forall>operand \<in> {0, 1, 2}.
            map snd (assigns_for (nat d) operand (kronmult_events A x y work n off pde)) =
              map (\<lambda>gemm. off * get_degree pde ^ nat (num_dims pde - 1 - d) + gemm)
                [0 .. get_degree pde ^ nat (num_dims pde - 1 - d) - 1] \<and>
            length (assigns_for (nat d) operand (kronmult_events A x y work n off pde)) =
              nat (get_degree pde ^ nat (num_dims pde - 1 - d))) \<and>
         (\<forall>call \<in> set (assigns_for (nat d) 0 (kronmult_events A x y work n off pde)).
            mat_nrows (fst call) = get_degree pde ^ nat d \<and> mat_ncols (fst call) = get_degree pde \<and>
            fst (mat_data (fst call)) = fst (vec_data (work ! nat ((d - 1) mod 2)))) \<and>
         (\<forall>call \<in> set (assigns_for (nat d) 1 (kronmult_events A x y work n off pde)).
            fst call = A ! nat d \<and>
            mat_nrows (fst call) = get_degree pde \<and> mat_ncols (fst call) = get_degree pde) \<and>
         (\<forall>call \<in> set (assigns_for (nat d) 2 (kronmult_events A x y work n off pde)).
            mat_nrows (fst call) = get_degree pde ^ nat d \<and> mat_ncols (fst call) = get_degree pde \<and>
            fst (mat_data (fst call)) = fst (vec_data (work ! nat (d mod 2)))) \<and>
         (allocate_batches pde num_elems = Inr batches \<longrightarrow>
            map (\<lambda>b. (batch_nrows b, batch_ncols b, do_trans b)) (batches ! nat d) =
              [(get_degree pde ^ nat d, get_degree pde, False),
               (get_degree pde, get_degree pde, True),
               (get_degree pde ^ nat d, get_degree pde, False)])"
proof -
  have alloc: "map (\<lambda>b. (batch_nrows b, batch_ncols b, do_trans b)) (batches ! nat d) =
              [(get_degree pde ^ nat d, get_degree pde, False),
               (get_degree pde, get_degree pde, True),
               (get_degree pde ^ nat d, get_degree pde, False)]"
    if "allocate_batches pde num_elems = Inr batches"
  proof -
    have "batches = map (allocated_operands pde num_elems) [0 .. num_dims pde - 1]"
      using that by (simp add: allocate_batches_explicit)
    moreover have "nat d < nat (num_dims pde)" using assms(1-3) by simp
    ultimately have "batches ! nat d = allocated_operands pde num_elems d"
      using allocated_nth [of "nat d" pde num_elems] assms(2) by simp
    then show ?thesis using assms(2) by (simp add: allocated_operands_def Let_def)
  qed
  have d: "int (nat d) < num_dims pde" "nat d \<noteq> 0" "int (nat d) \<noteq> num_dims pde - 1" "int (nat d) = d"
    using assms(1-3) by simp_all
  have e: "num_dims pde - d - 1 = num_dims pde - 1 - d" by simp
  have Ad: "mat_nrows (A ! nat d) = get_degree pde \<and> mat_ncols (A ! nat d) = get_degree pde"
  proof -
    have "num_dims pde \<le> int (length A)" using assms(4) by (simp add: kronmult_precondition_def)
    then have "nat d < length A" using assms(2,3) by linarith
    then have "A ! nat d \<in> set A" by simp
    then show ?thesis using assms(4) by (simp add: kronmult_precondition_def list_all_iff)
  qed
  show ?thesis
    unfolding assigns_for_kronmult [OF assms(4)]
    using d Ad alloc by (simp add: matrix_view_of_vector_def e comp_def)
qed

theorem kronmult_intermediate_dimensions_witness:
  "3 \<le> num_dims (example_pde 3 1 2) \<and> (1::int) \<le> 1 \<and> 1 \<le> num_dims (example_pde 3 1 2) - 2 \<and>
   kronmult_precondition (example_operators 3 2) (example_vector Batch_input 0 8)
          (example_vector Reduction_space 0 8)
          [example_vector Batch_intermediate 0 8, example_vector Batch_intermediate 8 8] 3 0
          (example_pde 3 1 2) \<and>
   map snd (assigns_for 1 0
       (kronmult_events (example_operators 3 2) (example_vector Batch_input 0 8)
          (example_vector Reduction_space 0 8)
          [example_vector Batch_intermediate 0 8, example_vector Batch_intermediate 8 8] 3 0
          (example_pde 3 1 2))) = [0, 1] \<and>
   length (assigns_for 1 0
       (kronmult_events (example_operators 3 2) (example_vector Batch_input 0 8)
          (example_vector Reduction_space 0 8)
          [example_vector Batch_intermediate 0 8, example_vector Batch_intermediate 8 8] 3 0
          (example_pde 3 1 2))) = 2"
proof -
  have D: "3 \<le> num_dims (example_pde 3 1 2)" "(1::int) \<le> 1" "1 \<le> num_dims (example_pde 3 1 2) - 2"
    by (simp_all add: example_pde_def)
  have pre: "kronmult_precondition (example_operators 3 2) (example_vector Batch_input 0 8)
          (example_vector Reduction_space 0 8)
          [example_vector Batch_intermediate 0 8, example_vector Batch_intermediate 8 8] 3 0
          (example_pde 3 1 2)"
    using example_precondition [of 3 2 2] by (simp add: upt_rec numeral_2_eq_2)
  show ?thesis
    using D pre kronmult_intermediate_dimensions [OF D pre]
    by (simp add: example_pde_def upto_rec1)
qed

text \<open>
  Claim C4. For a PDE with six dimensions, degree 4 and one term, one call of
  \<^verbatim>\<open>kronmult_to_batch_sets\<close> (batch offset 0) on the batches allocated for one
  coupling succeeds and leaves 1, 256, 64, 16, 4 and 1 gemms ready in the batch
  sets of the dimensions 0 to 5, which is 342 in all; these are the values
  of \<^verbatim>\<open>compute_batch_size\<close>, \<open>degree^(D-d-1)\<close> for the intermediate dimensions and
  1 for the first and the last.
\<close>

theorem kronmult_operand_count:
  assumes "num_dims pde = 6" and "get_degree pde = 4" and "num_terms pde = 1"
    and pre: "kronmult_precondition A x y work 6 0 pde"
    and st: "strides_ok A pde"
    and alloc: "allocation_ok pde 1"
  shows "\<exists>batches batches'.
     allocate_batches pde 1 = Inr batches \<and>
     kronmult_to_batch_sets A x y work batches 0 pde = Inr batches' \<and>
     map gemm_count batches' = [1, 256, 64, 16, 4, 1] \<and>
     sum_list (map gemm_count batches') = 342 \<and>
     map (\<lambda>d. compute_batch_size 4 6 d) [0, 1, 2, 3, 4, 5] =
       [Inr 1, Inr (4 ^ 4), Inr (4 ^ 3), Inr (4 ^ 2), Inr 4, Inr 1]"
proof -
  let ?bs = "map (allocated_operands pde 1) [0 .. num_dims pde - 1]"
  have a: "allocate_batches pde 1 = Inr ?bs"
    using alloc by (simp add: allocate_batches_explicit)
  have pre': "kronmult_precondition A x y work (num_dims pde) 0 pde"
    using pre assms(1) by simp
  have off: "0 < num_terms pde * 1" using assms(3) by simp
  from kronmult_success [OF pre' st off]
  obtain bs' where run: "kronmult_to_batch_sets A x y work ?bs 0 pde = Inr bs'"
    and len: "length bs' = 6"
    and eff: "\<And>d operand. d < 6 \<Longrightarrow> operand < 3 \<Longrightarrow>
        length (batch_list (bs' ! d ! operand)) = nat (num_gemms_at 4 6 (int d)) \<and>
        assigned_count (bs' ! d ! operand) = nat (num_gemms_at 4 6 (int d))"
    using assms(1-3) by auto
  have count: "gemm_count (bs' ! d) = nat (num_gemms_at 4 6 (int d))" if "d < 6" for d
    using gemm_count_full [of "bs' ! d" "nat (num_gemms_at 4 6 (int d))"] eff [OF that] by blast
  have "map gemm_count bs' = map (\<lambda>d. nat (num_gemms_at 4 6 (int d))) [0..<6]"
    using len count by (intro nth_equalityI) simp_all
  also have "\<dots> = [1, 256, 64, 16, 4, 1]"
    by (simp add: num_gemms_at_def upt_rec)
  finally have counts: "map gemm_count bs' = [1, 256, 64, 16, 4, 1]" .
  have cbs: "map (\<lambda>d. compute_batch_size 4 6 d) [0, 1, 2, 3, 4, 5] =
       [Inr 1, Inr (4 ^ 4), Inr (4 ^ 3), Inr (4 ^ 2), Inr 4, Inr 1]"
    by (simp add: compute_batch_size_def pow_int_def)
  show ?thesis
    using a run counts cbs by simp
qed

theorem kronmult_operand_count_witness:
  "num_dims (example_pde 6 1 4) = 6 \<and> get_degree (example_pde 6 1 4) = 4 \<and>
   num_terms (example_pde 6 1 4) = 1 \<and>
   kronmult_precondition (example_operators 6 4) (example_vector Batch_input 0 4096)
     (example_vector Reduction_space 0 4096)
     [example_vector Batch_intermediate 0 4096, example_vector Batch_intermediate 4096 4096] 6 0
     (example_pde 6 1 4) \<and>
   strides_ok (example_operators 6 4) (example_pde 6 1 4) \<and>
   allocation_ok (example_pde 6 1 4) 1 \<and>
   (\<exists>batches batches'.
      allocate_batches (example_pde 6 1 4) 1 = Inr batches \<and>
      kronmult_to_batch_sets (example_operators 6 4) (example_vector Batch_input 0 4096)
        (example_vector Reduction_space 0 4096)
        [example_vector Batch_intermediate 0 4096, example_vector Batch_intermediate 4096 4096]
        batches 0 (example_pde 6 1 4) = Inr batches' \<and>
      map gemm_count batches' = [1, 256, 64, 16, 4, 1] \<and>
      sum_list (map gemm_count batches') = 342 \<and>
      map (\<lambda>d. compute_batch_size 4 6 d) [0, 1, 2, 3, 4, 5] =
        [Inr 1, Inr (4 ^ 4), Inr (4 ^ 3), Inr (4 ^ 2), Inr 4, Inr 1])"
proof -
  have D: "num_dims (example_pde 6 1 4) = 6" "get_degree (example_pde 6 1 4) = 4"
    "num_terms (example_pde 6 1 4) = 1"
    by (simp_all add: example_pde_def)
  have pre: "kronmult_precondition (example_operators 6 4) (example_vector Batch_input 0 4096)
     (example_vector Reduction_space 0 4096)
     [example_vector Batch_intermediate 0 4096, example_vector Batch_intermediate 4096 4096] 6 0
     (example_pde 6 1 4)"
    using example_precondition [of 6 4 2] by (simp add: upt_rec numeral_2_eq_2)
  have st: "strides_ok (example_operators 6 4) (example_pde 6 1 4)"
    by (rule example_strides_ok)
  have alloc: "allocation_ok (example_pde 6 1 4) 1"
    by (simp add: example_allocation_ok)
  show ?thesis
    using D pre st alloc kronmult_operand_count [OF D pre st alloc]
    by (intro conjI) assumption+
qed

section \<open>Properties of the construction of the batches\<close>

subsection \<open>The index of a coupling and term\<close>

lemma prev_elems_loop_Inr:
  "prev_elems_loop chunk rs acc = Inr v \<Longrightarrow>
     (\<forall>r \<in> set rs. map_of chunk r \<noteq> None) \<and> v = acc + sum_list (map (row_count chunk) rs)"
proof (induction rs arbitrary: acc)
  case Nil
  then show ?case by simp
next
  case (Cons r rs)
  show ?case
  proof (cases "map_of chunk r")
    case None
    then show ?thesis using Cons.prems by simp
  next
    case (Some conn)
    then have "prev_elems_loop chunk rs (acc + (stop conn - start conn + 1)) = Inr v"
      using Cons.prems by simp
    from Cons.IH [OF this] Some show ?thesis by (simp add: row_count_def)
  qed
qed

lemma sorted_keys_distinct:
  "sorted_wrt (\<lambda>i i'. i < i') (xs :: int list) \<Longrightarrow> distinct xs"
  by (induction xs) auto

lemma chunk_ok_facts:
  assumes "chunk_ok chunk"
  shows "distinct (map fst chunk)"
    and "(i, conn) \<in> set chunk \<Longrightarrow> map_of chunk i = Some conn"
    and "(i, conn) \<in> set chunk \<Longrightarrow> start conn \<le> stop conn + 1"
    and "(i, conn) \<in> set chunk \<Longrightarrow> fst (hd chunk) \<le> i"
    and "0 \<le> row_count chunk r"
proof -
  from assms have s: "sorted_wrt (\<lambda>i i'. i < i') (map fst chunk)"
    and c: "\<forall>(i, conn) \<in> set chunk. start conn \<le> stop conn + 1"
    by (simp_all add: chunk_ok_def list_all_iff)
  show d: "distinct (map fst chunk)" using s by (rule sorted_keys_distinct)
  show "(i, conn) \<in> set chunk \<Longrightarrow> map_of chunk i = Some conn"
    using d by simp
  show "(i, conn) \<in> set chunk \<Longrightarrow> start conn \<le> stop conn + 1"
    using c by auto
  show "(i, conn) \<in> set chunk \<Longrightarrow> fst (hd chunk) \<le> i"
    using s by (cases chunk) auto
  show "0 \<le> row_count chunk r"
  proof (cases "map_of chunk r")
    case None
    then show ?thesis by (simp add: row_count_def)
  next
    case (Some conn)
    then have "(r, conn) \<in> set chunk" by (rule map_of_SomeD)
    then show ?thesis using c Some by (auto simp: row_count_def)
  qed
qed

lemma prev_row_elems_sum:
  assumes "prev_row_elems chunk i = Inr p"
  shows "p = sum_list (map (row_count chunk) [fst (hd chunk) .. i - 1])"
proof (cases "i = fst (hd chunk)")
  case True
  then show ?thesis using assms by (simp add: prev_row_elems_def)
next
  case False
  then show ?thesis using assms prev_elems_loop_Inr [of chunk "[fst (hd chunk) .. i - 1]" 0 p]
    by (simp add: prev_row_elems_def)
qed

lemma sum_list_nonneg_int:
  "(\<And>x. x \<in> set xs \<Longrightarrow> 0 \<le> f x) \<Longrightarrow> (0::int) \<le> sum_list (map f xs)"
  by (induction xs) auto

lemma prev_row_elems_mono:
  assumes ok: "chunk_ok chunk"
    and i: "(i, conn) \<in> set chunk" and lt: "i < i'"
    and p: "prev_row_elems chunk i = Inr p" and p': "prev_row_elems chunk i' = Inr p'"
  shows "p + (stop conn - start conn + 1) \<le> p'"
proof -
  let ?f = "fst (hd chunk)"
  have f: "?f \<le> i" using chunk_ok_facts(4) [OF ok i] .
  have split: "[?f .. i' - 1] = [?f .. i - 1] @ i # [i + 1 .. i' - 1]"
    using f lt upto_split3 [of ?f i "i' - 1"] by simp
  have "row_count chunk i = stop conn - start conn + 1"
    using chunk_ok_facts(2) [OF ok i] by (simp add: row_count_def)
  moreover have "0 \<le> sum_list (map (row_count chunk) [i + 1 .. i' - 1])"
    using chunk_ok_facts(5) [OF ok] by (intro sum_list_nonneg_int)
  ultimately show ?thesis
    using prev_row_elems_sum [OF p] prev_row_elems_sum [OF p'] unfolding split by simp
qed

lemma prev_row_elems_nonneg:
  assumes ok: "chunk_ok chunk" and p: "prev_row_elems chunk i = Inr p"
  shows "0 \<le> p"
  unfolding prev_row_elems_sum [OF p]
  using chunk_ok_facts(5) [OF ok] by (intro sum_list_nonneg_int)

lemma term_index_unique:
  fixes k :: int
  assumes "0 \<le> k" "k < T" "0 \<le> k'" "k' < T" "k + a * T = k' + a' * T"
  shows "a = a' \<and> k = k'"
proof -
  have "a = (k + a * T) div T"
    using assms(1,2) by (simp add: div_pos_pos_trivial)
  also have "\<dots> = (k' + a' * T) div T"
    by (simp only: assms(5))
  also have "\<dots> = a'"
    using assms(3,4) by (simp add: div_pos_pos_trivial)
  finally have "a = a'" .
  then show ?thesis using assms(5) by simp
qed

lemma kron_index_Inr:
  "kron_index chunk T i conn j k = Inr n \<longleftrightarrow>
     (\<exists>p. prev_row_elems chunk i = Inr p \<and> n = k + (p + j - start conn) * T)"
  by (auto simp: kron_index_def total_prev_elems_def on_success_def split: sum.splits)

lemma kron_index_injective:
  assumes ok: "chunk_ok chunk"
    and t: "(i, conn) \<in> set chunk" "start conn \<le> j" "j \<le> stop conn" "0 \<le> k" "k < T"
    and t': "(i', conn') \<in> set chunk" "start conn' \<le> j'" "j' \<le> stop conn'" "0 \<le> k'" "k' < T"
    and n: "kron_index chunk T i conn j k = Inr n" and n': "kron_index chunk T i' conn' j' k' = Inr n"
  shows "i = i' \<and> conn = conn' \<and> j = j' \<and> k = k'"
proof -
  from n obtain p where p: "prev_row_elems chunk i = Inr p" and np: "n = k + (p + j - start conn) * T"
    unfolding kron_index_Inr by blast
  from n' obtain p' where p': "prev_row_elems chunk i' = Inr p'" and np': "n = k' + (p' + j' - start conn') * T"
    unfolding kron_index_Inr by blast
  have eq: "p + j - start conn = p' + j' - start conn'" and kk: "k = k'"
    using term_index_unique [OF t(4,5) t'(4,5), of "p + j - start conn" "p' + j' - start conn'"] np np'
    by simp_all
  have "\<not> i < i'"
  proof
    assume "i < i'"
    from prev_row_elems_mono [OF ok t(1) this p p'] eq t(3) t'(2) show False by simp
  qed
  moreover have "\<not> i' < i"
  proof
    assume "i' < i"
    from prev_row_elems_mono [OF ok t'(1) this p' p] eq t'(3) t(2) show False by simp
  qed
  ultimately have ii: "i = i'" by simp
  then have cc: "conn = conn'"
    using chunk_ok_facts(2) [OF ok t(1)] chunk_ok_facts(2) [OF ok t'(1)] by simp
  have "p = p'" using p p' ii by simp
  then show ?thesis using ii cc kk eq by simp
qed

subsection \<open>The positions assigned for a chunk\<close>

lemma check_matrix_sizes_Some:
  "check_matrix_sizes A degree = Some e \<Longrightarrow> e \<noteq> write_once"
  by (induction A) (auto simp: write_once_def split: if_splits)

lemma check_matrix_sizes_None:
  "check_matrix_sizes A degree = None \<Longrightarrow>
   list_all (\<lambda>matrix. mat_nrows matrix = degree \<and> mat_ncols matrix = degree) A"
  by (induction A) (auto split: if_splits)

lemma kronmult_events_cases:
  assumes "0 < get_degree pde" "num_dims pde \<le> int (length A)"
  shows "kronmult_precondition A x y work n off pde \<or>
         (\<exists>e. kronmult_events A x y work n off pde = [Fail e] \<and> e \<noteq> write_once)"
proof (cases "vec_size x = pow_int (get_degree pde) (num_dims pde) \<and>
              vec_size y = pow_int (get_degree pde) (num_dims pde) \<and>
              int (length work) = min (num_dims pde - 1) 2 \<and>
              list_all (\<lambda>vector. vec_size vector = pow_int (get_degree pde) (num_dims pde)) work \<and>
              check_matrix_sizes A (get_degree pde) = None \<and>
              n = num_dims pde \<and> 0 \<le> off")
  case True
  then have D: "1 \<le> num_dims pde" by (auto simp: min_def split: if_splits)
  then have "pow_int (get_degree pde) (num_dims pde) = get_degree pde ^ nat (num_dims pde)"
    by simp
  then have "kronmult_precondition A x y work n off pde"
    using True assms check_matrix_sizes_None [of A "get_degree pde"]
    by (simp add: kronmult_precondition_def)
  then show ?thesis ..
next
  case False
  then have "\<exists>e. kronmult_events A x y work n off pde = [Fail e] \<and> e \<noteq> write_once"
    by (auto simp: kronmult_events_def Let_def write_once_def check_matrix_sizes_Some [unfolded write_once_def]
        split: option.splits)
  then show ?thesis ..
qed

lemma total_prev_elems_Inl:
  "total_prev_elems chunk i conn j = Inl e \<Longrightarrow> e \<noteq> write_once"
proof -
  have loop: "prev_elems_loop chunk rs acc = Inl e \<Longrightarrow> e = Out_of_range" for rs acc
    by (induction rs arbitrary: acc) (auto split: option.splits)
  assume "total_prev_elems chunk i conn j = Inl e"
  then have "e = Out_of_range"
    using loop by (auto simp: total_prev_elems_def prev_row_elems_def on_success_def
        split: if_splits sum.splits)
  then show ?thesis by (simp add: write_once_def)
qed

lemma term_events_cases:
  assumes "0 < get_degree pde" "1 \<le> num_dims pde"
  shows "(\<exists>e. term_events pde elem_table workspace chunk nb i conn orow j ocol k = [Fail e] \<and>
              e \<noteq> write_once) \<or>
         (\<exists>n A x y work. kron_index chunk (num_terms pde) i conn j k = Inr n \<and>
            term_events pde elem_table workspace chunk nb i conn orow j ocol k =
              kronmult_events A x y work nb n pde \<and>
            kronmult_precondition A x y work nb n pde)"
proof (cases "total_prev_elems chunk i conn j")
  case (Inl e)
  then show ?thesis using total_prev_elems_Inl [OF Inl] by (simp add: term_events_def Let_def)
next
  case (Inr t)
  then have n: "kron_index chunk (num_terms pde) i conn j k = Inr (k + t * num_terms pde)"
    by (simp add: kron_index_def on_success_def)
  show ?thesis
  proof (cases "table_size elem_table = 0")
    case True
    then show ?thesis using Inr by (simp add: term_events_def Let_def write_once_def)
  next
    case False
    have len: "num_dims pde \<le> int (length (operator_views_of pde k orow ocol))"
      using assms(2) by (simp add: operator_views_of_def)
    obtain A x y work where ev: "term_events pde elem_table workspace chunk nb i conn orow j ocol k =
        kronmult_events A x y work nb (k + t * num_terms pde) pde"
      and A: "A = operator_views_of pde k orow ocol"
      using Inr False by (simp add: term_events_def Let_def)
    from kronmult_events_cases [OF assms(1) len [folded A], of x y work nb "k + t * num_terms pde"]
    show ?thesis using ev n by auto
  qed
qed

lemma tagged_Nil: "tagged chunk T G S []"
  by (simp add: tagged_def)

lemma tagged_mono: "tagged chunk T G S ps \<Longrightarrow> S \<subseteq> S' \<Longrightarrow> tagged chunk T G S' ps"
  unfolding tagged_def by fast

lemma term_events_tagged:
  assumes "0 < get_degree pde" "1 \<le> num_dims pde"
  shows "tagged chunk (num_terms pde) (num_gemms_at (get_degree pde) (num_dims pde) (int d))
           {(i, conn, j, k)}
           (map snd (assigns_for d operand
              (term_events pde elem_table workspace chunk nb i conn orow j ocol k)))"
proof -
  from term_events_cases [OF assms, of elem_table workspace chunk nb i conn orow j ocol k]
  show ?thesis
  proof (elim disjE exE conjE)
    fix e assume "term_events pde elem_table workspace chunk nb i conn orow j ocol k = [Fail e]"
    then show ?thesis by (simp add: tagged_Nil)
  next
    fix n A x y work
    assume n: "kron_index chunk (num_terms pde) i conn j k = Inr n"
      and ev: "term_events pde elem_table workspace chunk nb i conn orow j ocol k =
              kronmult_events A x y work nb n pde"
      and pre: "kronmult_precondition A x y work nb n pde"
    show ?thesis
      unfolding ev tagged_def
    proof (intro conjI ballI)
      show "distinct (map snd (assigns_for d operand (kronmult_events A x y work nb n pde)))"
        by (rule kronmult_positions_distinct [OF pre])
    next
      fix p assume "p \<in> set (map snd (assigns_for d operand (kronmult_events A x y work nb n pde)))"
      then have "n * num_gemms_at (get_degree pde) (num_dims pde) (int d) \<le> p"
        "p \<le> num_gemms_at (get_degree pde) (num_dims pde) (int d) - 1 +
          n * num_gemms_at (get_degree pde) (num_dims pde) (int d)"
        unfolding kronmult_positions [OF pre] by (auto split: if_splits)
      then have "0 \<le> p - n * num_gemms_at (get_degree pde) (num_dims pde) (int d)"
        "p - n * num_gemms_at (get_degree pde) (num_dims pde) (int d) <
           num_gemms_at (get_degree pde) (num_dims pde) (int d)"
        "p = n * num_gemms_at (get_degree pde) (num_dims pde) (int d) +
           (p - n * num_gemms_at (get_degree pde) (num_dims pde) (int d))"
        by simp_all
      then show "\<exists>(i, conn, j, k) \<in> {(i, conn, j, k)}. \<exists>n g.
          kron_index chunk (num_terms pde) i conn j k = Inr n \<and> 0 \<le> g \<and>
          g < num_gemms_at (get_degree pde) (num_dims pde) (int d) \<and>
          p = n * num_gemms_at (get_degree pde) (num_dims pde) (int d) + g"
        using n by blast
    qed
  qed
qed

lemma tagged_concat:
  assumes ok: "chunk_ok chunk"
    and G: "0 < G"
    and "distinct xs"
    and "\<And>x. x \<in> set xs \<Longrightarrow> tagged chunk T G (S x) (f x)"
    and "\<And>x. x \<in> set xs \<Longrightarrow> S x \<subseteq> chunk_triples chunk T"
    and "\<And>x x'. x \<in> set xs \<Longrightarrow> x' \<in> set xs \<Longrightarrow> x \<noteq> x' \<Longrightarrow> S x \<inter> S x' = {}"
  shows "tagged chunk T G (\<Union>x \<in> set xs. S x) (concat (map f xs))"
  using assms(3-6)
proof (induction xs)
  case Nil
  then show ?case by (simp add: tagged_Nil)
next
  case (Cons x xs)
  have IH: "tagged chunk T G (\<Union>x \<in> set xs. S x) (concat (map f xs))"
    using Cons by (intro Cons.IH) auto
  have here: "tagged chunk T G (S x) (f x)" using Cons.prems(2) by simp
  have disjoint: "set (f x) \<inter> set (concat (map f xs)) = {}"
  proof (rule ccontr)
    assume "set (f x) \<inter> set (concat (map f xs)) \<noteq> {}"
    then obtain p where p1: "p \<in> set (f x)" and p2: "p \<in> set (concat (map f xs))" by auto
    from p1 here obtain i conn j k n g where t: "(i, conn, j, k) \<in> S x"
      and n: "kron_index chunk T i conn j k = Inr n" and g: "0 \<le> g" "g < G" and p: "p = n * G + g"
      unfolding tagged_def by fast
    from p2 IH obtain i' conn' j' k' n' g' where t': "(i', conn', j', k') \<in> (\<Union>x \<in> set xs. S x)"
      and n': "kron_index chunk T i' conn' j' k' = Inr n'" and g': "0 \<le> g'" "g' < G"
      and p': "p = n' * G + g'"
      unfolding tagged_def by fast
    from t' obtain x' where x': "x' \<in> set xs" and tx': "(i', conn', j', k') \<in> S x'" by auto
    have "n = n'"
      using term_index_unique [OF g g', of n n'] p p' by (simp add: add.commute)
    moreover have "(i, conn, j, k) \<in> chunk_triples chunk T" using t Cons.prems(3) [of x] by auto
    moreover have "(i', conn', j', k') \<in> chunk_triples chunk T" using tx' x' Cons.prems(3) [of x'] by auto
    ultimately have "(i, conn, j, k) = (i', conn', j', k')"
      using kron_index_injective [OF ok _ _ _ _ _ _ _ _ _ _ n, of i' conn' j' k'] n'
      by (simp add: chunk_triples_def)
    moreover have "x \<noteq> x'" using x' Cons.prems(1) by auto
    ultimately show False using Cons.prems(4) [of x x'] x' t tx' by auto
  qed
  have "distinct (f x @ concat (map f xs))"
    using here IH disjoint by (simp add: tagged_def)
  moreover have "\<forall>p \<in> set (f x @ concat (map f xs)). \<exists>(i, conn, j, k) \<in> (\<Union>x \<in> set (x # xs). S x). \<exists>n g.
          kron_index chunk T i conn j k = Inr n \<and> 0 \<le> g \<and> g < G \<and> p = n * G + g"
    using here IH unfolding tagged_def by fastforce
  ultimately show ?case by (simp add: tagged_def)
qed

lemma positions_concat:
  "map snd (assigns_for d operand (concat (map f xs))) =
   concat (map (\<lambda>x. map snd (assigns_for d operand (f x))) xs)"
  by (simp add: assigns_for_concat map_concat comp_def)

lemma connected_events_tagged:
  assumes ok: "chunk_ok chunk" and deg: "0 < get_degree pde" and D: "1 \<le> num_dims pde"
    and row: "(i, conn) \<in> set chunk" and j: "start conn \<le> j" "j \<le> stop conn"
  shows "tagged chunk (num_terms pde) (num_gemms_at (get_degree pde) (num_dims pde) (int d))
           {(i', conn', j', k). i' = i \<and> conn' = conn \<and> j' = j \<and> 0 \<le> k \<and> k < num_terms pde}
           (map snd (assigns_for d operand
              (connected_events pde elem_table workspace chunk nb i conn orow j)))"
proof (cases "int (length (get_coords elem_table j)) = num_dims pde * 2")
  case False
  then show ?thesis by (simp add: connected_events_def Let_def tagged_Nil)
next
  case True
  let ?T = "num_terms pde" and ?G = "num_gemms_at (get_degree pde) (num_dims pde) (int d)"
  obtain ocol where ev: "connected_events pde elem_table workspace chunk nb i conn orow j =
      concat (map (term_events pde elem_table workspace chunk nb i conn orow j ocol) [0 .. ?T - 1])"
    using True by (simp add: connected_events_def Let_def)
  have "tagged chunk ?T ?G (\<Union>k \<in> set [0 .. ?T - 1]. {(i, conn, j, k)})
      (concat (map (\<lambda>k. map snd (assigns_for d operand
         (term_events pde elem_table workspace chunk nb i conn orow j ocol k))) [0 .. ?T - 1]))"
  proof (rule tagged_concat [OF ok num_gemms_at_pos [OF deg]])
    show "distinct [0 .. ?T - 1]" by simp
  next
    fix k assume "k \<in> set [0 .. ?T - 1]"
    show "tagged chunk ?T ?G {(i, conn, j, k)} (map snd (assigns_for d operand
         (term_events pde elem_table workspace chunk nb i conn orow j ocol k)))"
      by (rule term_events_tagged [OF deg D])
  next
    fix k assume "k \<in> set [0 .. ?T - 1]"
    then show "{(i, conn, j, k)} \<subseteq> chunk_triples chunk ?T"
      using row j by (simp add: chunk_triples_def)
  next
    fix k k' :: int assume "k \<noteq> k'"
    then show "{(i, conn, j, k)} \<inter> {(i, conn, j, k')} = {}" by simp
  qed
  then show ?thesis
    unfolding ev positions_concat by (rule tagged_mono) auto
qed

lemma row_events_tagged:
  assumes ok: "chunk_ok chunk" and deg: "0 < get_degree pde" and D: "1 \<le> num_dims pde"
    and row: "(i, conn) \<in> set chunk"
  shows "tagged chunk (num_terms pde) (num_gemms_at (get_degree pde) (num_dims pde) (int d))
           {(i', conn', j, k). i' = i \<and> conn' = conn \<and> start conn \<le> j \<and> j \<le> stop conn \<and>
              0 \<le> k \<and> k < num_terms pde}
           (map snd (assigns_for d operand
              (row_events pde elem_table workspace chunk nb (i, conn))))"
proof (cases "int (length (get_coords elem_table i)) = num_dims pde * 2")
  case False
  then show ?thesis by (simp add: row_events_def Let_def tagged_Nil)
next
  case True
  let ?T = "num_terms pde" and ?G = "num_gemms_at (get_degree pde) (num_dims pde) (int d)"
  let ?S = "\<lambda>j. {(i', conn', j', k). i' = i \<and> conn' = conn \<and> j' = j \<and> 0 \<le> k \<and> k < ?T}"
  obtain orow where ev: "row_events pde elem_table workspace chunk nb (i, conn) =
      concat (map (connected_events pde elem_table workspace chunk nb i conn orow)
        [start conn .. stop conn])"
    using True by (simp add: row_events_def Let_def)
  have "tagged chunk ?T ?G (\<Union>j \<in> set [start conn .. stop conn]. ?S j)
      (concat (map (\<lambda>j. map snd (assigns_for d operand
         (connected_events pde elem_table workspace chunk nb i conn orow j))) [start conn .. stop conn]))"
  proof (rule tagged_concat [OF ok num_gemms_at_pos [OF deg]])
    show "distinct [start conn .. stop conn]" by simp
  next
    fix j assume "j \<in> set [start conn .. stop conn]"
    then have j: "start conn \<le> j" "j \<le> stop conn" by simp_all
    show "tagged chunk ?T ?G (?S j) (map snd (assigns_for d operand
         (connected_events pde elem_table workspace chunk nb i conn orow j)))"
      by (rule connected_events_tagged [OF ok deg D row j])
    show "?S j \<subseteq> chunk_triples chunk ?T"
      using row j by (auto simp: chunk_triples_def)
  next
    fix j j' :: int assume "j \<noteq> j'"
    then show "?S j \<inter> ?S j' = {}" by auto
  qed
  then show ?thesis
    unfolding ev positions_concat by (rule tagged_mono) auto
qed

lemma build_events_tagged:
  assumes ok: "chunk_ok chunk" and deg: "0 < get_degree pde" and D: "1 \<le> num_dims pde"
  shows "tagged chunk (num_terms pde) (num_gemms_at (get_degree pde) (num_dims pde) (int d))
           (chunk_triples chunk (num_terms pde))
           (map snd (assigns_for d operand (build_events pde elem_table workspace chunk nb)))"
proof -
  let ?T = "num_terms pde" and ?G = "num_gemms_at (get_degree pde) (num_dims pde) (int d)"
  let ?S = "\<lambda>row. {(i', conn', j, k). i' = fst row \<and> conn' = snd row \<and> start (snd row) \<le> j \<and>
              j \<le> stop (snd row) \<and> 0 \<le> k \<and> k < ?T}"
  have "tagged chunk ?T ?G (\<Union>row \<in> set chunk. ?S row)
      (concat (map (\<lambda>row. map snd (assigns_for d operand
         (row_events pde elem_table workspace chunk nb row))) chunk))"
  proof (rule tagged_concat [OF ok num_gemms_at_pos [OF deg]])
    show "distinct chunk" using chunk_ok_facts(1) [OF ok] by (simp add: distinct_map)
  next
    fix row assume r: "row \<in> set chunk"
    then have r': "(fst row, snd row) \<in> set chunk" by simp
    show "tagged chunk ?T ?G (?S row) (map snd (assigns_for d operand
         (row_events pde elem_table workspace chunk nb row)))"
      using row_events_tagged [OF ok deg D r', of d operand elem_table workspace nb] by simp
    show "?S row \<subseteq> chunk_triples chunk ?T"
      using r' by (auto simp: chunk_triples_def)
  next
    fix row row' :: "int \<times> limits" assume "row \<noteq> row'"
    then show "?S row \<inter> ?S row' = {}" by (auto simp: prod_eq_iff)
  qed
  then show ?thesis
    unfolding build_events_def positions_concat
    by (rule tagged_mono) (auto simp: chunk_triples_def)
qed

subsection \<open>The write-once assertion\<close>

text \<open>Running steps that never target a slot twice: the write-once assertion holds.\<close>

lemma run_events_write_once:
  assumes "\<And>d operand. distinct (map snd (assigns_for d operand evs))"
    and "write_once \<notin> set (failures evs)"
    and "\<And>d operand call. call \<in> set (assigns_for d operand evs) \<Longrightarrow> d < length bs \<Longrightarrow>
           operand < length (bs ! d) \<Longrightarrow> 0 \<le> snd call \<Longrightarrow>
           snd call < num_entries (bs ! d ! operand) \<Longrightarrow>
           batch_list (bs ! d ! operand) ! nat (snd call) = None"
  shows "run_events evs bs \<noteq> Inl write_once"
  using assms
proof (induction evs arbitrary: bs)
  case Nil
  then show ?case by simp
next
  case (Cons ev evs)
  show ?case
  proof (cases ev)
    case (Fail e)
    then show ?thesis using Cons.prems(2) by auto
  next
    case (Assign d0 o0 a p)
    show ?thesis
    proof (cases "d0 < length bs \<and> o0 < length (bs ! d0)")
      case False
      then show ?thesis using Assign by (auto simp: write_once_def)
    next
      case True
      let ?b = "bs ! d0 ! o0"
      show ?thesis
      proof (cases "assign_entry a p ?b")
        case (Inl e)
        have "e \<noteq> write_once"
        proof
          assume "e = write_once"
          then have w: "0 \<le> p" "p < num_entries ?b" "batch_list ?b ! nat p \<noteq> None"
            using assign_entry_write_once [of a p ?b] Inl by simp_all
          have "(a, p) \<in> set (assigns_for d0 o0 (ev # evs))" using Assign by simp
          from Cons.prems(3) [OF this] True w show False by simp
        qed
        then show ?thesis using Assign True Inl by (simp add: on_success_def)
      next
        case (Inr b')
        from assign_entry_Inr [OF Inr]
        have p: "0 \<le> p" "p < num_entries ?b"
          and b': "b' = ?b\<lparr>batch_list := (batch_list ?b)[nat p := Some (mat_data a)]\<rparr>"
          by simp_all
        let ?bs1 = "bs[d0 := (bs ! d0)[o0 := b']]"
        have step: "run_events (ev # evs) bs = run_events evs ?bs1"
          using Assign True Inr by (simp add: on_success_def)
        have fresh: "p \<notin> snd ` set (assigns_for d0 o0 evs)"
          using Cons.prems(1) [of d0 o0] Assign by simp
        have d1: "distinct (map snd (assigns_for d operand evs))" for d operand
          using Cons.prems(1) [of d operand] Assign by (simp split: if_splits)
        have f1: "write_once \<notin> set (failures evs)" using Cons.prems(2) Assign by simp
        have n1: "batch_list (?bs1 ! d ! operand) ! nat (snd call) = None"
          if c: "call \<in> set (assigns_for d operand evs)" and dd: "d < length ?bs1"
            and oo: "operand < length (?bs1 ! d)" and c0: "0 \<le> snd call"
            and c1: "snd call < num_entries (?bs1 ! d ! operand)" for d operand call
        proof -
          have c': "call \<in> set (assigns_for d operand (ev # evs))" using c Assign by simp
          have dd': "d < length bs" using dd by simp
          have oo': "operand < length (bs ! d)"
            using oo dd' by (cases "d = d0") (auto simp: nth_list_update)
          show ?thesis
          proof (cases "d = d0 \<and> operand = o0")
            case same: True
            then have eq: "?bs1 ! d ! operand = b'" using True by simp
            have "snd call < num_entries ?b" using c1 eq b' by (simp add: num_entries_def)
            then have old: "batch_list ?b ! nat (snd call) = None"
              using Cons.prems(3) [OF c' dd' oo' c0] same by simp
            have "snd call \<noteq> p" using fresh c same by auto
            then have "nat (snd call) \<noteq> nat p" using c0 p(1) by simp
            then show ?thesis using old eq b' by simp
          next
            case False
            then have eq: "?bs1 ! d ! operand = bs ! d ! operand"
              using dd' oo' by (cases "d = d0") (auto simp: nth_list_update)
            show ?thesis
              using Cons.prems(3) [OF c' dd' oo' c0] c1 unfolding eq by simp
          qed
        qed
        show ?thesis unfolding step by (rule Cons.IH [OF d1 f1 n1])
      qed
    qed
  qed
qed

lemma failures_concat_mem:
  "e \<in> set (failures (concat (map f xs))) \<Longrightarrow> \<exists>x \<in> set xs. e \<in> set (failures (f x))"
  by (auto simp: failures_concat)

lemma failures_term_events:
  assumes "0 < get_degree pde" "1 \<le> num_dims pde"
    and "e \<in> set (failures (term_events pde elem_table workspace chunk nb i conn orow j ocol k))"
  shows "e \<noteq> write_once"
  using term_events_cases [OF assms(1,2), of elem_table workspace chunk nb i conn orow j ocol k] assms(3)
  by (auto simp: failures_kronmult)

lemma failures_connected_events:
  assumes "0 < get_degree pde" "1 \<le> num_dims pde"
    and "e \<in> set (failures (connected_events pde elem_table workspace chunk nb i conn orow j))"
  shows "e \<noteq> write_once"
proof (cases "int (length (get_coords elem_table j)) = num_dims pde * 2")
  case False
  then show ?thesis using assms(3) by (simp add: connected_events_def Let_def write_once_def)
next
  case True
  then obtain ocol where "e \<in> set (failures (concat (map
      (term_events pde elem_table workspace chunk nb i conn orow j ocol) [0 .. num_terms pde - 1])))"
    using assms(3) by (simp add: connected_events_def Let_def)
  from failures_concat_mem [OF this] failures_term_events [OF assms(1,2)]
  show ?thesis by blast
qed

lemma failures_row_events:
  assumes "0 < get_degree pde" "1 \<le> num_dims pde"
    and "e \<in> set (failures (row_events pde elem_table workspace chunk nb row))"
  shows "e \<noteq> write_once"
proof (cases "int (length (get_coords elem_table (fst row))) = num_dims pde * 2")
  case False
  then show ?thesis using assms(3) by (simp add: row_events_def Let_def write_once_def)
next
  case True
  then obtain orow where "e \<in> set (failures (concat (map
      (connected_events pde elem_table workspace chunk nb (fst row) (snd row) orow)
      [start (snd row) .. stop (snd row)])))"
    using assms(3) by (simp add: row_events_def Let_def)
  from failures_concat_mem [OF this] failures_connected_events [OF assms(1,2)]
  show ?thesis by blast
qed

lemma failures_build_events:
  assumes "0 < get_degree pde" "1 \<le> num_dims pde"
  shows "write_once \<notin> set (failures (build_events pde elem_table workspace chunk nb))"
proof
  assume "write_once \<in> set (failures (build_events pde elem_table workspace chunk nb))"
  from failures_concat_mem [OF this [unfolded build_events_def]] failures_row_events [OF assms]
  show False by blast
qed

lemma compute_dimensions_Inl: "compute_dimensions degree D d = Inl e \<Longrightarrow> e \<noteq> write_once"
  by (auto simp: compute_dimensions_def write_once_def split: if_splits)

lemma compute_batch_size_Inl: "compute_batch_size degree D d = Inl e \<Longrightarrow> e \<noteq> write_once"
  by (auto simp: compute_batch_size_def write_once_def split: if_splits)

lemma batch_new_Inl: "batch_new n r c s t = Inl e \<Longrightarrow> e \<noteq> write_once"
  by (auto simp: batch_new_def write_once_def split: if_splits)

lemma operands_set_Inl: "operands_set a b c = Inl e \<Longrightarrow> a = Inl e \<or> b = Inl e \<or> c = Inl e"
  by (auto simp: operands_set_def on_success_def split: sum.splits)

lemma allocate_remaining_Inl:
  fixes pde :: "'b PDE"
  shows "allocate_remaining pde num_elems ds acc = Inl e \<Longrightarrow> e \<noteq> write_once"
proof (induction ds arbitrary: acc)
  case Nil
  then show ?case by simp
next
  case (Cons d ds)
  show ?case
  proof (cases "compute_batch_size (get_degree pde) (num_dims pde) d")
    case (Inl e')
    then show ?thesis using Cons.prems compute_batch_size_Inl [OF Inl] by (simp add: on_success_def)
  next
    case G: (Inr G)
    show ?thesis
    proof (cases "compute_dimensions (get_degree pde) (num_dims pde) d")
      case (Inl e')
      then show ?thesis using Cons.prems G compute_dimensions_Inl [OF Inl]
        by (simp add: on_success_def Let_def)
    next
      case sizes: (Inr sizes)
      let ?n = "G * num_terms pde * num_elems"
      let ?set = "operands_set
          (batch_new ?n (rows_a sizes) (cols_a sizes) (rows_a sizes) False)
          (batch_new ?n (rows_b sizes) (cols_b sizes) (mat_stride (get_coefficients pde 0 d)) True)
          (batch_new ?n (rows_a sizes) (rows_b sizes) (rows_a sizes) False) ::
          error + 'b batch_operands_set"
      show ?thesis
      proof (cases ?set)
        case (Inl e')
        then have "e' \<noteq> write_once" using operands_set_Inl [OF Inl] batch_new_Inl by metis
        moreover have "allocate_remaining pde num_elems (d # ds) acc = Inl e'"
          using G sizes Inl by (simp add: on_success_def Let_def)
        ultimately show ?thesis using Cons.prems by simp
      next
        case (Inr operands)
        then have "allocate_remaining pde num_elems ds (acc @ [operands]) = Inl e"
          using Cons.prems G sizes by (simp add: on_success_def Let_def)
        then show ?thesis by (rule Cons.IH)
      qed
    qed
  qed
qed

lemma allocate_batches_Inl:
  fixes pde :: "'b PDE"
  assumes "allocate_batches pde num_elems = Inl e"
  shows "e \<noteq> write_once"
proof (cases "compute_dimensions (get_degree pde) (num_dims pde) 0")
  case (Inl e')
  then show ?thesis using assms compute_dimensions_Inl [OF Inl]
    by (simp add: allocate_batches_def on_success_def Let_def)
next
  case sizes: (Inr sizes)
  let ?n = "num_terms pde * num_elems"
  let ?set = "operands_set
      (batch_new ?n (rows_a sizes) (cols_a sizes) (mat_stride (get_coefficients pde 0 0)) False)
      (batch_new ?n (rows_b sizes) (cols_b sizes) (rows_b sizes) False)
      (batch_new ?n (rows_a sizes) (cols_b sizes) (rows_a sizes) False) ::
      error + 'b batch_operands_set"
  show ?thesis
  proof (cases ?set)
    case (Inl e')
    then have "e' \<noteq> write_once" using operands_set_Inl [OF Inl] batch_new_Inl by metis
    moreover have "allocate_batches pde num_elems = Inl e'"
      using sizes Inl by (simp add: allocate_batches_def on_success_def Let_def)
    ultimately show ?thesis using assms by simp
  next
    case (Inr operands)
    then have "allocate_remaining pde num_elems [1 .. num_dims pde - 1] [operands] = Inl e"
      using assms sizes by (simp add: allocate_batches_def on_success_def Let_def)
    then show ?thesis by (rule allocate_remaining_Inl)
  qed
qed

lemma allocated_all_null:
  assumes "d < nat (num_dims pde)" "operand < 3"
    and "i < length (batch_list (map (allocated_operands pde num_elems) [0 .. num_dims pde - 1] ! d ! operand))"
  shows "batch_list (map (allocated_operands pde num_elems) [0 .. num_dims pde - 1] ! d ! operand) ! i = None"
  using assms allocated_operands_nth(1) [OF assms(2), of pde num_elems "int d"]
  by (simp add: allocated_nth)

text \<open>
  Claim C1. For a chunk (its rows in increasing order, none with a range of negative
  length): two triples (row element, connected element, term) of the chunk that
  have the same \<^verbatim>\<open>kron_index\<close> are the same triple; among the assignments that
  \<^verbatim>\<open>build_batches\<close> makes on the batches it allocated, no two target the same
  position of the same batch; and \<^verbatim>\<open>build_batches\<close> never stops on the assertion of
  \<^verbatim>\<open>assign_entry\<close> that the position is not assigned yet.
\<close>

theorem kron_index_unique:
  assumes "chunk_ok chunk"
  shows "(\<forall>i conn j k i' conn' j' k' n.
            (i, conn, j, k) \<in> chunk_triples chunk (num_terms pde) \<and>
            (i', conn', j', k') \<in> chunk_triples chunk (num_terms pde) \<and>
            kron_index chunk (num_terms pde) i conn j k = Inr n \<and>
            kron_index chunk (num_terms pde) i' conn' j' k' = Inr n \<longrightarrow>
            i = i' \<and> conn = conn' \<and> j = j' \<and> k = k') \<and>
         (\<forall>batches. allocate_batches pde (num_elements_in_chunk chunk) = Inr batches \<longrightarrow>
            (\<forall>d operand. distinct (map snd (assigns_for d operand
               (build_events pde elem_table workspace chunk (int (length batches))))))) \<and>
         build_batches pde elem_table workspace chunk \<noteq> Inl write_once"
proof (intro conjI)
  show "\<forall>i conn j k i' conn' j' k' n.
            (i, conn, j, k) \<in> chunk_triples chunk (num_terms pde) \<and>
            (i', conn', j', k') \<in> chunk_triples chunk (num_terms pde) \<and>
            kron_index chunk (num_terms pde) i conn j k = Inr n \<and>
            kron_index chunk (num_terms pde) i' conn' j' k' = Inr n \<longrightarrow>
            i = i' \<and> conn = conn' \<and> j = j' \<and> k = k'"
  proof (intro allI impI, elim conjE)
    fix i conn j k i' conn' j' k' n
    assume t: "(i, conn, j, k) \<in> chunk_triples chunk (num_terms pde)"
      and t': "(i', conn', j', k') \<in> chunk_triples chunk (num_terms pde)"
      and n: "kron_index chunk (num_terms pde) i conn j k = Inr n"
      and n': "kron_index chunk (num_terms pde) i' conn' j' k' = Inr n"
    from t have a: "(i, conn) \<in> set chunk" "start conn \<le> j" "j \<le> stop conn" "0 \<le> k" "k < num_terms pde"
      by (simp_all add: chunk_triples_def)
    from t' have b: "(i', conn') \<in> set chunk" "start conn' \<le> j'" "j' \<le> stop conn'" "0 \<le> k'"
      "k' < num_terms pde"
      by (simp_all add: chunk_triples_def)
    from kron_index_injective [OF assms a b n n']
    show "i = i' \<and> conn = conn' \<and> j = j' \<and> k = k'" .
  qed
next
  show "\<forall>batches. allocate_batches pde (num_elements_in_chunk chunk) = Inr batches \<longrightarrow>
            (\<forall>d operand. distinct (map snd (assigns_for d operand
               (build_events pde elem_table workspace chunk (int (length batches))))))"
  proof (intro allI impI)
    fix batches d operand
    assume "allocate_batches pde (num_elements_in_chunk chunk) = Inr batches"
    then have "allocation_ok pde (num_elements_in_chunk chunk)"
      by (simp add: allocate_batches_explicit)
    then have deg: "0 < get_degree pde" and D: "1 \<le> num_dims pde"
      by (simp_all add: allocation_ok_def)
    from build_events_tagged [OF assms deg D]
    show "distinct (map snd (assigns_for d operand
               (build_events pde elem_table workspace chunk (int (length batches)))))"
      by (simp add: tagged_def)
  qed
next
  show "build_batches pde elem_table workspace chunk \<noteq> Inl write_once"
  proof (cases "allocate_batches pde (num_elements_in_chunk chunk)")
    case (Inl e)
    then have "e \<noteq> write_once" by (rule allocate_batches_Inl)
    then show ?thesis using Inl
      by (auto simp: build_batches_def Let_def on_success_def write_once_def)
  next
    case (Inr batches)
    then have ok: "allocation_ok pde (num_elements_in_chunk chunk)"
      and bs: "batches = map (allocated_operands pde (num_elements_in_chunk chunk)) [0 .. num_dims pde - 1]"
      by (simp_all add: allocate_batches_explicit)
    from ok have deg: "0 < get_degree pde" and D: "1 \<le> num_dims pde"
      by (simp_all add: allocation_ok_def)
    let ?evs = "build_events pde elem_table workspace chunk (int (length batches))"
    have d: "distinct (map snd (assigns_for d operand ?evs))" for d operand
      using build_events_tagged [OF assms deg D] by (simp add: tagged_def)
    have f: "write_once \<notin> set (failures ?evs)"
      by (rule failures_build_events [OF deg D])
    have n: "batch_list (batches ! d ! operand) ! nat (snd call) = None"
      if "d < length batches" "operand < length (batches ! d)" "0 \<le> snd call"
        "snd call < num_entries (batches ! d ! operand)" for d operand call
    proof -
      have dd: "d < nat (num_dims pde)" using that(1) bs by simp
      then have "batches ! d = allocated_operands pde (num_elements_in_chunk chunk) (int d)"
        unfolding bs by (rule allocated_nth)
      moreover have "length (allocated_operands pde (num_elements_in_chunk chunk) (int d)) = 3"
        by (simp add: allocated_operands_def Let_def)
      ultimately have oo: "operand < 3" using that(2) by simp
      have "nat (snd call) < length (batch_list (batches ! d ! operand))"
        using that(3,4) by (simp add: num_entries_def)
      then show ?thesis using allocated_all_null [OF dd oo] unfolding bs by simp
    qed
    have "run_events ?evs batches \<noteq> Inl write_once"
      using d f n by (intro run_events_write_once) 
    then show ?thesis using Inr
      by (auto simp: build_batches_def Let_def on_success_def write_once_def)
  qed
qed

lemma example_chunk_ok: "chunk_ok example_chunk"
  by (simp add: chunk_ok_def example_chunk_def)

theorem kron_index_unique_witness:
  "chunk_ok example_chunk \<and>
   build_batches (example_pde 2 2 2) example_table example_workspace example_chunk \<noteq> Inl write_once \<and>
   \<not> isl (build_batches (example_pde 2 2 2) example_table example_workspace example_chunk) \<and>
   map (\<lambda>(i, conn, j, k). kron_index example_chunk 2 i conn j k)
     [(0, \<lparr>start = 0, stop = 2\<rparr>, 0, 0), (0, \<lparr>start = 0, stop = 2\<rparr>, 0, 1),
      (0, \<lparr>start = 0, stop = 2\<rparr>, 1, 0), (0, \<lparr>start = 0, stop = 2\<rparr>, 1, 1),
      (0, \<lparr>start = 0, stop = 2\<rparr>, 2, 0), (0, \<lparr>start = 0, stop = 2\<rparr>, 2, 1),
      (1, \<lparr>start = 0, stop = 1\<rparr>, 0, 0), (1, \<lparr>start = 0, stop = 1\<rparr>, 0, 1),
      (1, \<lparr>start = 0, stop = 1\<rparr>, 1, 0), (1, \<lparr>start = 0, stop = 1\<rparr>, 1, 1)] =
     [Inr 0, Inr 1, Inr 2, Inr 3, Inr 4, Inr 5, Inr 6, Inr 7, Inr 8, Inr 9]"
proof -
  have run: "\<not> isl (build_batches (example_pde 2 2 2) example_table example_workspace example_chunk)"
    by code_simp
  have indices: "map (\<lambda>(i, conn, j, k). kron_index example_chunk 2 i conn j k)
     [(0, \<lparr>start = 0, stop = 2\<rparr>, 0, 0), (0, \<lparr>start = 0, stop = 2\<rparr>, 0, 1),
      (0, \<lparr>start = 0, stop = 2\<rparr>, 1, 0), (0, \<lparr>start = 0, stop = 2\<rparr>, 1, 1),
      (0, \<lparr>start = 0, stop = 2\<rparr>, 2, 0), (0, \<lparr>start = 0, stop = 2\<rparr>, 2, 1),
      (1, \<lparr>start = 0, stop = 1\<rparr>, 0, 0), (1, \<lparr>start = 0, stop = 1\<rparr>, 0, 1),
      (1, \<lparr>start = 0, stop = 1\<rparr>, 1, 0), (1, \<lparr>start = 0, stop = 1\<rparr>, 1, 1)] =
     [Inr 0, Inr 1, Inr 2, Inr 3, Inr 4, Inr 5, Inr 6, Inr 7, Inr 8, Inr 9]"
    by (simp add: kron_index_def total_prev_elems_def prev_row_elems_def example_chunk_def
        on_success_def upto_rec1)
  have "build_batches (example_pde 2 2 2) example_table example_workspace example_chunk \<noteq>
      Inl write_once"
    using kron_index_unique [OF example_chunk_ok, of "example_pde 2 2 2" example_table example_workspace]
    by (elim conjE)
  then show ?thesis
    using example_chunk_ok run indices by (intro conjI)
qed

text \<open>
  The condition on the ranges matters: with a row whose range has a negative
  length, two couplings get the same index and the write-once assertion fails.
\<close>

lemma build_batches_negative_range:
  "build_batches (example_pde 2 2 2) example_table example_workspace
     [(0, \<lparr>start = 0, stop = 1\<rparr>), (1, \<lparr>start = 5, stop = 3\<rparr>), (2, \<lparr>start = 0, stop = 0\<rparr>)] =
   Inl (Assertion_failed ''!batch_[position]'')"
  by code_simp


section \<open>Properties of \<^verbatim>\<open>legendre\<close>\<close>

subsection \<open>Matrices given by their elements\<close>

lemma matrix_of_simps [simp]:
  "nrows (matrix_of r c f) = r" "ncols (matrix_of r c f) = c"
  "length (data (matrix_of r c f)) = r * c"
  by (simp_all add: matrix_of_def)

lemma matrix_of_get [simp]:
  assumes "i < r" "j < c"
  shows "mat_get (matrix_of r c f) i j = f i j"
  using assms position_bound [of i r j c] by (simp add: matrix_of_def mat_get_def)

lemma matrix_of_cong:
  assumes "\<And>i j. i < r \<Longrightarrow> j < c \<Longrightarrow> f i j = g i j"
  shows "matrix_of r c f = matrix_of r c g"
proof -
  have "f (q mod r) (q div r) = g (q mod r) (q div r)" if "q < r * c" for q
  proof -
    from that have "0 < r" by (cases r) simp_all
    moreover from that have "q div r < c" by (simp add: less_mult_imp_div_less mult.commute)
    ultimately show ?thesis by (intro assms) simp_all
  qed
  then show ?thesis by (simp add: matrix_of_def)
qed

lemma matrix_of_eqI:
  assumes "nrows m = r" "ncols m = c" "length (data m) = r * c"
    and "\<And>i j. i < r \<Longrightarrow> j < c \<Longrightarrow> mat_get m i j = f i j"
  shows "m = matrix_of r c f"
proof -
  have "data m ! q = f (q mod r) (q div r)" if "q < r * c" for q
  proof -
    from that have r: "0 < r" by (cases r) simp_all
    from that have "q div r < c" by (simp add: less_mult_imp_div_less mult.commute)
    with r have "mat_get m (q mod r) (q div r) = f (q mod r) (q div r)" by (intro assms) simp_all
    then show ?thesis using assms(1) by (simp add: mat_get_def)
  qed
  then have "data m = map (\<lambda>q. f (q mod r) (q div r)) [0..<r * c]"
    using assms(3) by (intro nth_equalityI) simp_all
  then show ?thesis using assms(1,2) by (simp add: matrix_of_def)
qed

text \<open>Writing a list of elements, each a function of its position.\<close>

lemma fill_positions:
  assumes "\<forall>p\<in>set ps. fst p < r \<and> snd p < c"
  shows "foldl (\<lambda>t p. mat_set t (fst p) (snd p) (g (fst p) (snd p))) (matrix_of r c f) ps =
         matrix_of r c (\<lambda>i j. if (i, j) \<in> set ps then g i j else f i j)"
  using assms
proof (induction ps rule: rev_induct)
  case Nil
  show ?case by simp
next
  case (snoc p ps)
  obtain i0 j0 where p: "p = (i0, j0)" by (cases p)
  from snoc.prems p have b: "i0 < r" "j0 < c" by simp_all
  let ?h = "\<lambda>i j. if (i, j) \<in> set ps then g i j else f i j"
  have IH: "foldl (\<lambda>t p. mat_set t (fst p) (snd p) (g (fst p) (snd p))) (matrix_of r c f) ps =
     matrix_of r c ?h" using snoc by simp
  have "mat_set (matrix_of r c ?h) i0 j0 (g i0 j0) =
     matrix_of r c (\<lambda>i j. if (i, j) \<in> set (ps @ [p]) then g i j else f i j)"
  proof (rule matrix_of_eqI)
    fix i j assume ij: "i < r" "j < c"
    have "(j * r + i = j0 * r + i0) = (i = i0 \<and> j = j0)"
      using position_unique [OF b(1), of "j * r + i" j0] ij by auto
    moreover have "j * r + i < r * c" using ij by (rule position_bound)
    ultimately show "mat_get (mat_set (matrix_of r c ?h) i0 j0 (g i0 j0)) i j =
       (if (i, j) \<in> set (ps @ [p]) then g i j else f i j)"
      using ij p matrix_of_get [OF ij, of ?h]
      by (auto simp: mat_get_def nth_list_update)
  qed simp_all
  with IH p show ?case by simp
qed

lemma fill_column:
  assumes "k < c"
  shows "foldl (\<lambda>t i. mat_set t i k (g i)) (matrix_of r c f) [0..<r] =
         matrix_of r c (\<lambda>i j. if j = k then g i else f i j)"
proof -
  have "foldl (\<lambda>t i. mat_set t i k (g i)) (matrix_of r c f) [0..<r] =
        foldl (\<lambda>t p. mat_set t (fst p) (snd p) (g (fst p))) (matrix_of r c f)
          (map (\<lambda>i. (i, k)) [0..<r])"
    by (simp add: foldl_map)
  also have "\<dots> = matrix_of r c
     (\<lambda>i j. if (i, j) \<in> set (map (\<lambda>i. (i, k)) [0..<r]) then g i else f i j)"
    using assms by (intro fill_positions [where g = "\<lambda>i j. g i"]) simp
  also have "\<dots> = matrix_of r c (\<lambda>i j. if j = k then g i else f i j)"
    by (rule matrix_of_cong) auto
  finally show ?thesis .
qed

lemma fill_row:
  assumes "k < r"
  shows "foldl (\<lambda>t j. mat_set t k j (g j)) (matrix_of r c f) [0..<c] =
         matrix_of r c (\<lambda>i j. if i = k then g j else f i j)"
proof -
  have "foldl (\<lambda>t j. mat_set t k j (g j)) (matrix_of r c f) [0..<c] =
        foldl (\<lambda>t p. mat_set t (fst p) (snd p) (g (snd p))) (matrix_of r c f)
          (map (\<lambda>j. (k, j)) [0..<c])"
    by (simp add: foldl_map)
  also have "\<dots> = matrix_of r c
     (\<lambda>i j. if (i, j) \<in> set (map (\<lambda>j. (k, j)) [0..<c]) then g j else f i j)"
    using assms by (intro fill_positions [where g = "\<lambda>i j. g j"]) simp
  also have "\<dots> = matrix_of r c (\<lambda>i j. if i = k then g j else f i j)"
    by (rule matrix_of_cong) auto
  finally show ?thesis .
qed

lemma update_col_of:
  assumes "k < c" "length v = r"
  shows "update_col (matrix_of r c f) k v =
         Inr (matrix_of r c (\<lambda>i j. if j = k then v ! i else f i j))"
  using assms fill_column [OF assms(1), of "\<lambda>i. v ! i" r f] by (simp add: update_col_def)

lemma update_row_of:
  assumes "k < r" "length v = c"
  shows "update_row (matrix_of r c f) k v =
         Inr (matrix_of r c (\<lambda>i j. if i = k then v ! j else f i j))"
  using assms fill_row [OF assms(1), of "\<lambda>j. v ! j" c f] by (simp add: update_row_def)

lemma matrix_new_of: "matrix_new r c = matrix_of r c (\<lambda>i j. 0)"
  by (rule matrix_of_eqI) (simp_all add: matrix_new_def mat_get_def position_bound)

lemma extract_column_of:
  assumes "k < c"
  shows "extract_submatrix (matrix_of r c f) 0 k r 1 = Inr (matrix_of r 1 (\<lambda>i j. f i k))"
proof -
  have "foldl (\<lambda>s i. mat_set s i 0 (mat_get (matrix_of r c f) i k)) (matrix_of r 1 (\<lambda>i j. 0)) [0..<r]
        = matrix_of r 1 (\<lambda>i j. if j = 0 then mat_get (matrix_of r c f) i k else 0)"
    by (rule fill_column) simp
  also have "\<dots> = matrix_of r 1 (\<lambda>i j. f i k)"
    using assms by (intro matrix_of_cong) simp
  finally show ?thesis using assms by (simp add: extract_submatrix_def matrix_new_of)
qed

lemma vector_of_column: "vector_of_matrix (matrix_of r 1 f) = map (\<lambda>i. f i 0) [0..<r]"
  by (simp add: vector_of_matrix_def matrix_of_def)

lemma matrix_times_of:
  "matrix_times (matrix_of r c f) s = matrix_of r c (\<lambda>i j. f i j * real_of_int s)"
proof -
  let ?m = "matrix_of r c f"
  have "n \<le> c \<Longrightarrow>
    foldl (\<lambda>ans j. foldl (\<lambda>ans i. mat_set ans i j (mat_get ?m i j * real_of_int s)) ans [0..<r])
      (matrix_of r c (\<lambda>i j. 0)) [0..<n] =
    matrix_of r c (\<lambda>i j. if j < n then f i j * real_of_int s else 0)" for n
  proof (induction n)
    case 0
    show ?case by simp
  next
    case (Suc n)
    then have "n < c" by simp
    from fill_column [OF this, of "\<lambda>i. mat_get ?m i n * real_of_int s" r] Suc
    have "foldl (\<lambda>ans j. foldl (\<lambda>ans i. mat_set ans i j (mat_get ?m i j * real_of_int s)) ans [0..<r])
      (matrix_of r c (\<lambda>i j. 0)) [0..<Suc n] =
      matrix_of r c (\<lambda>i j. if j = n then mat_get ?m i n * real_of_int s
                              else if j < n then f i j * real_of_int s else 0)" by simp
    also have "\<dots> = matrix_of r c (\<lambda>i j. if j < Suc n then f i j * real_of_int s else 0)"
      by (rule matrix_of_cong) (auto simp: less_Suc_eq)
    finally show ?case .
  qed
  from this [of c] have "matrix_times ?m s = matrix_of r c (\<lambda>i j. if j < c then f i j * real_of_int s else 0)"
    by (simp add: matrix_times_def matrix_new_of)
  also have "\<dots> = matrix_of r c (\<lambda>i j. f i j * real_of_int s)"
    by (rule matrix_of_cong) simp
  finally show ?thesis .
qed

text \<open>The factor that reaches \<^verbatim>\<open>operator*(int const)\<close>: the integer part of \<open>sqrt 2\<close>.\<close>

lemma int_of_floating_sqrt_2: "int_of_floating (sqrt 2) = 1"
proof -
  have "1 \<le> sqrt 2" by simp
  moreover have "sqrt 2 < 2" by (rule real_less_lsqrt) simp_all
  ultimately have "\<lfloor>sqrt 2\<rfloor> = 1" by (intro floor_unique) simp_all
  then show ?thesis by (simp add: int_of_floating_def)
qed

lemma elementwise_product_of:
  "elementwise_product domain (map h [0..<length domain]) =
   map (\<lambda>i. domain ! i * h i) [0..<length domain]"
  by (simp add: elementwise_product_def)

lemma vector_times_of: "vector_times (map h [0..<r]) s = map (\<lambda>i. h i * s) [0..<r]"
  by (simp add: vector_times_def)

lemma vector_minus_of:
  "vector_minus (map a [0..<r]) (map b [0..<r]) = Inr (map (\<lambda>i. a i - b i) [0..<r])"
  by (simp add: vector_minus_def)

lemma vector_plus_of:
  "vector_plus (map a [0..<r]) (map b [0..<r]) = Inr (map (\<lambda>i. a i + b i) [0..<r])"
  by (simp add: vector_plus_def)

subsection \<open>The stages in closed form\<close>

lemma recurrence_value:
  "(x * legendre_polynomial (k + 1) x * (2 * real (k + 1) + 1)
      - legendre_polynomial k x * real (k + 1)) * (1 / (real (k + 1) + 1)) =
   legendre_polynomial (Suc (Suc k)) x"
proof -
  have "x * legendre_polynomial (Suc k) x * (2 * real (Suc k) + 1)
          - legendre_polynomial k x * real (Suc k) =
        (2 * real (Suc k) + 1) * x * legendre_polynomial (Suc k) x
          - real (Suc k) * legendre_polynomial k x"
    by (simp only: mult.commute mult.left_commute)
  then show ?thesis
    by (simp only: legendre_polynomial.simps Suc_eq_plus1 [symmetric] times_divide_eq_right
        mult_1_right)
qed

lemma recurrence_derivative:
  "((x * legendre_derivative (k + 1) x + legendre_polynomial (k + 1) x) * (2 * real (k + 1) + 1)
      - legendre_derivative k x * real (k + 1)) * (1 / (real (k + 1) + 1)) =
   legendre_derivative (Suc (Suc k)) x"
proof -
  have "(x * legendre_derivative (Suc k) x + legendre_polynomial (Suc k) x) * (2 * real (Suc k) + 1)
          - legendre_derivative k x * real (Suc k) =
        (2 * real (Suc k) + 1) * (x * legendre_derivative (Suc k) x + legendre_polynomial (Suc k) x)
          - real (Suc k) * legendre_derivative k x"
    by (simp only: mult.commute)
  then show ?thesis
    by (simp only: legendre_derivative.simps Suc_eq_plus1 [symmetric] times_divide_eq_right
        mult_1_right)
qed

lemma on_success_Inr [simp]: "on_success (Inr v) f = f v"
  by (simp add: on_success_def)

lemma legendre_polynomial_low:
  "j < 2 \<Longrightarrow> legendre_polynomial j x = (if j = 0 then 1 else x)"
  "j < 2 \<Longrightarrow> legendre_derivative j x = (if j = 0 then 0 else 1)"
  by (cases j; cases "j - 1"; simp)+

lemma initial_columns_explicit:
  "initial_columns domain degree =
   Inr (matrix_of (length domain) (nat (max 1 degree))
          (\<lambda>i j. if j < 2 then legendre_polynomial j (domain ! i) else 0),
        matrix_of (length domain) (nat (max 1 degree))
          (\<lambda>i j. if j < 2 then legendre_derivative j (domain ! i) else 0))"
proof (cases "degree \<ge> 2")
  case True
  then have c: "0 < nat (max 1 degree)" "1 < nat (max 1 degree)" by simp_all
  have "initial_columns domain degree =
     Inr (matrix_of (length domain) (nat (max 1 degree))
            (\<lambda>i j. if j = 1 then domain ! i else if j = 0 then replicate (length domain) 1 ! i else 0),
          matrix_of (length domain) (nat (max 1 degree))
            (\<lambda>i j. if j = 1 then replicate (length domain) 1 ! i else 0))"
    using True c by (simp add: initial_columns_def matrix_new_of update_col_of Let_def)
  also have "\<dots> = Inr (matrix_of (length domain) (nat (max 1 degree))
          (\<lambda>i j. if j < 2 then legendre_polynomial j (domain ! i) else 0),
        matrix_of (length domain) (nat (max 1 degree))
          (\<lambda>i j. if j < 2 then legendre_derivative j (domain ! i) else 0))"
    unfolding sum.inject prod.inject
    by (intro conjI matrix_of_cong) (auto simp: legendre_polynomial_low)
  finally show ?thesis .
next
  case False
  then have c: "0 < nat (max 1 degree)" "nat (max 1 degree) = 1" by simp_all
  have "initial_columns domain degree =
     Inr (matrix_of (length domain) (nat (max 1 degree))
            (\<lambda>i j. if j = 0 then replicate (length domain) 1 ! i else 0),
          matrix_of (length domain) (nat (max 1 degree)) (\<lambda>i j. 0))"
    using False c(1) by (simp add: initial_columns_def matrix_new_of update_col_of Let_def)
  also have "\<dots> = Inr (matrix_of (length domain) (nat (max 1 degree))
          (\<lambda>i j. if j < 2 then legendre_polynomial j (domain ! i) else 0),
        matrix_of (length domain) (nat (max 1 degree))
          (\<lambda>i j. if j < 2 then legendre_derivative j (domain ! i) else 0))"
    unfolding sum.inject prod.inject
    by (intro conjI matrix_of_cong) (auto simp: legendre_polynomial_low c(2))
  finally show ?thesis .
qed


lemma remaining_step_explicit:
  assumes "k + 2 < c"
  shows "remaining_step domain (remaining_state domain c k) k = Inr (remaining_state domain c (Suc k))"
proof -
  let ?r = "length domain"
  let ?col = "map (\<lambda>i. legendre_polynomial (Suc (Suc k)) (domain ! i)) [0..<?r]"
  let ?pcol = "map (\<lambda>i. legendre_derivative (Suc (Suc k)) (domain ! i)) [0..<?r]"
  have m: "matrix_of ?r c (\<lambda>i j. if j = k + 2 then ?col ! i
              else if j < k + 2 then legendre_polynomial j (domain ! i) else 0) =
           matrix_of ?r c (\<lambda>i j. if j < Suc k + 2 then legendre_polynomial j (domain ! i) else 0)"
    by (rule matrix_of_cong) (auto simp: less_Suc_eq)
  have pm: "matrix_of ?r c (\<lambda>i j. if j = k + 2 then ?pcol ! i
              else if j < k + 2 then legendre_derivative j (domain ! i) else 0) =
           matrix_of ?r c (\<lambda>i j. if j < Suc k + 2 then legendre_derivative j (domain ! i) else 0)"
    by (rule matrix_of_cong) (auto simp: less_Suc_eq)
  have len: "length ?col = ?r" "length ?pcol = ?r" by simp_all
  have "remaining_step domain (remaining_state domain c k) k =
    Inr (matrix_of ?r c (\<lambda>i j. if j = k + 2 then ?col ! i
              else if j < k + 2 then legendre_polynomial j (domain ! i) else 0),
         matrix_of ?r c (\<lambda>i j. if j = k + 2 then ?pcol ! i
              else if j < k + 2 then legendre_derivative j (domain ! i) else 0),
         ?col, ?pcol,
         map (\<lambda>i. legendre_polynomial (k + 1) (domain ! i)) [0..<?r],
         map (\<lambda>i. legendre_derivative (k + 1) (domain ! i)) [0..<?r])"
    unfolding remaining_step_def remaining_state_def prod.case Let_def
      elementwise_product_of vector_times_of vector_minus_of vector_plus_of on_success_Inr
      recurrence_value recurrence_derivative
      update_col_of [OF assms len(1)] update_col_of [OF assms len(2)]
    by (rule refl)
  also have "\<dots> = Inr (remaining_state domain c (Suc k))"
    unfolding m pm remaining_state_def by simp
  finally show ?thesis .
qed

lemma remaining_loop_explicit:
  "k + n + 2 \<le> c \<Longrightarrow>
   remaining_loop domain (remaining_state domain c k) [k..<k + n] =
   Inr (remaining_state domain c (k + n))"
proof (induction n arbitrary: k)
  case 0
  show ?case by simp
next
  case (Suc n)
  then have "k + 2 < c" "Suc k + n + 2 \<le> c" by simp_all
  moreover have "[k..<k + Suc n] = k # [Suc k..<Suc k + n]" "k + Suc n = Suc k + n"
    by (simp_all add: upt_conv_Cons del: upt_Suc)
  ultimately show ?case
    using remaining_step_explicit [of k c domain] Suc.IH [of "Suc k"]
    by (simp only: remaining_loop.simps on_success_Inr)
qed

lemma remaining_columns_explicit:
  assumes "c = nat (max 1 degree)"
  shows "remaining_columns domain degree (fst (remaining_state domain c 0), fst (snd (remaining_state domain c 0))) =
         Inr (normalizing_state domain c 0)"
proof (cases "degree \<ge> 3")
  case True
  let ?r = "length domain"
  from True assms have c: "0 < c" "1 < c" "0 + nat (degree - 2) + 2 \<le> c" "nat (degree - 2) + 2 = c"
    by simp_all
  have start: "(fst (remaining_state domain c 0), fst (snd (remaining_state domain c 0)),
      vector_of_matrix (matrix_of ?r 1 (\<lambda>i j. if (1::nat) < 0 + 2 then legendre_polynomial 1 (domain ! i) else 0)),
      vector_of_matrix (matrix_of ?r 1 (\<lambda>i j. if (1::nat) < 0 + 2 then legendre_derivative 1 (domain ! i) else 0)),
      vector_of_matrix (matrix_of ?r 1 (\<lambda>i j. if (0::nat) < 0 + 2 then legendre_polynomial 0 (domain ! i) else 0)),
      vector_of_matrix (matrix_of ?r 1 (\<lambda>i j. if (0::nat) < 0 + 2 then legendre_derivative 0 (domain ! i) else 0)))
    = remaining_state domain c 0"
    unfolding vector_of_column by (simp add: remaining_state_def)
  have "remaining_columns domain degree
          (fst (remaining_state domain c 0), fst (snd (remaining_state domain c 0))) =
        on_success (remaining_loop domain (remaining_state domain c 0) [0..<0 + nat (degree - 2)])
          (\<lambda>state. Inr (fst state, fst (snd state)))"
  proof -
    have "remaining_columns domain degree
          (fst (remaining_state domain c 0), fst (snd (remaining_state domain c 0))) =
        on_success (remaining_loop domain
          (fst (remaining_state domain c 0), fst (snd (remaining_state domain c 0)),
      vector_of_matrix (matrix_of ?r 1 (\<lambda>i j. if (1::nat) < 0 + 2 then legendre_polynomial 1 (domain ! i) else 0)),
      vector_of_matrix (matrix_of ?r 1 (\<lambda>i j. if (1::nat) < 0 + 2 then legendre_derivative 1 (domain ! i) else 0)),
      vector_of_matrix (matrix_of ?r 1 (\<lambda>i j. if (0::nat) < 0 + 2 then legendre_polynomial 0 (domain ! i) else 0)),
      vector_of_matrix (matrix_of ?r 1 (\<lambda>i j. if (0::nat) < 0 + 2 then legendre_derivative 0 (domain ! i) else 0)))
          [0..<0 + nat (degree - 2)])
          (\<lambda>state. Inr (fst state, fst (snd state)))"
      using True unfolding remaining_columns_def prod.case
      by (simp only: if_True remaining_state_def fst_conv snd_conv extract_column_of [OF c(1)]
        extract_column_of [OF c(2)] on_success_Inr add_0)
    then show ?thesis by (simp only: start)
  qed
  also have "\<dots> = Inr (fst (remaining_state domain c (nat (degree - 2))),
                         fst (snd (remaining_state domain c (nat (degree - 2)))))"
    using remaining_loop_explicit [OF c(3), of domain] by simp
  also have "\<dots> = Inr (normalizing_state domain c 0)"
    unfolding remaining_state_def normalizing_state_def fst_conv snd_conv sum.inject prod.inject
    using c(4) by (intro conjI matrix_of_cong) simp_all
  finally show ?thesis .
next
  case False
  with assms have "c \<le> 2" by simp
  then have "(fst (remaining_state domain c 0), fst (snd (remaining_state domain c 0))) =
     normalizing_state domain c 0"
    unfolding remaining_state_def normalizing_state_def fst_conv snd_conv prod.inject
    by (intro conjI matrix_of_cong) simp_all
  with False show ?thesis by (simp add: remaining_columns_def)
qed

lemma normalizing_step_explicit:
  assumes "k < c"
  shows "normalizing_step domain (normalizing_state domain c k) k =
         Inr (normalizing_state domain c (Suc k))"
proof -
  let ?r = "length domain"
  let ?d = "1 / sqrt (2 / (2 * real k + 1))"
  let ?f = "\<lambda>i j. if j < k then legendre_polynomial j (domain ! i) * (1 / sqrt (2 / (2 * real j + 1)))
               else legendre_polynomial j (domain ! i)"
  let ?g = "\<lambda>i j. if j < k then legendre_derivative j (domain ! i) * (1 / sqrt (2 / (2 * real j + 1)))
               else legendre_derivative j (domain ! i)"
  have len: "length (map (\<lambda>i. ?f i k * ?d) [0..<?r]) = ?r"
    "length (map (\<lambda>i. ?g i k * ?d) [0..<?r]) = ?r" by simp_all
  have "normalizing_step domain (normalizing_state domain c k) k =
     Inr (matrix_of ?r c (\<lambda>i j. if j = k then map (\<lambda>i. ?f i k * ?d) [0..<?r] ! i else ?f i j),
          matrix_of ?r c (\<lambda>i j. if j = k then map (\<lambda>i. ?g i k * ?d) [0..<?r] ! i else ?g i j))"
    unfolding normalizing_step_def normalizing_state_def prod.case Let_def
      extract_column_of [OF assms] on_success_Inr vector_of_column vector_times_of
      update_col_of [OF assms len(1)] update_col_of [OF assms len(2)]
    by (rule refl)
  also have "\<dots> = Inr (normalizing_state domain c (Suc k))"
    unfolding normalizing_state_def sum.inject prod.inject
    by (intro conjI matrix_of_cong) (auto simp: less_Suc_eq)
  finally show ?thesis .
qed

lemma normalizing_loop_explicit:
  "k + n \<le> c \<Longrightarrow>
   normalizing_loop domain (normalizing_state domain c k) [k..<k + n] =
   Inr (normalizing_state domain c (k + n))"
proof (induction n arbitrary: k)
  case 0
  show ?case by simp
next
  case (Suc n)
  then have "k < c" "Suc k + n \<le> c" by simp_all
  moreover have "[k..<k + Suc n] = k # [Suc k..<Suc k + n]" "k + Suc n = Suc k + n"
    by (simp_all add: upt_conv_Cons del: upt_Suc)
  ultimately show ?case
    using normalizing_step_explicit [of k c domain] Suc.IH [of "Suc k"]
    by (simp only: normalizing_loop.simps on_success_Inr)
qed

lemma zero_loop_explicit:
  assumes "c = nat (max degree 1)"
  shows "\<forall>i\<in>set rows. i < r \<Longrightarrow>
   zero_loop degree (matrix_of r c f, matrix_of r c g) rows =
   Inr (matrix_of r c (\<lambda>i j. if i \<in> set rows then 0 else f i j),
        matrix_of r c (\<lambda>i j. if i \<in> set rows then 0 else g i j))"
proof (induction rows arbitrary: f g)
  case Nil
  show ?case by simp
next
  case (Cons k rows)
  then have k: "k < r" and rows: "\<forall>i\<in>set rows. i < r" by simp_all
  have len: "length (replicate (nat (max degree 1)) (0::real)) = c" using assms by simp
  have "zero_loop degree (matrix_of r c f, matrix_of r c g) (k # rows) =
        zero_loop degree
          (matrix_of r c (\<lambda>i j. if i = k then replicate (nat (max degree 1)) 0 ! j else f i j),
           matrix_of r c (\<lambda>i j. if i = k then replicate (nat (max degree 1)) 0 ! j else g i j)) rows"
    by (simp only: zero_loop.simps prod.case update_row_of [OF k len] on_success_Inr)
  also have "\<dots> =
     Inr (matrix_of r c (\<lambda>i j. if i \<in> set rows then 0
            else if i = k then replicate (nat (max degree 1)) 0 ! j else f i j),
          matrix_of r c (\<lambda>i j. if i \<in> set rows then 0
            else if i = k then replicate (nat (max degree 1)) 0 ! j else g i j))"
    by (rule Cons.IH [OF rows])
  also have "\<dots> = Inr (matrix_of r c (\<lambda>i j. if i \<in> set (k # rows) then 0 else f i j),
        matrix_of r c (\<lambda>i j. if i \<in> set (k # rows) then 0 else g i j))"
    unfolding sum.inject prod.inject using assms
    by (intro conjI matrix_of_cong) auto
  finally show ?case .
qed

lemma find_indices_set:
  "set (find_indices v pred) = {i. i < length v \<and> pred (v ! i)}"
  by (auto simp: find_indices_def)

lemma legendre_explicit:
  assumes "0 \<le> degree" "domain \<noteq> []"
  shows "legendre domain degree =
    Inr (matrix_of (length domain) (nat (max 1 degree))
           (\<lambda>i j. if out_of_range_pred (domain ! i) then 0
                  else if 0 < degree then normalized_legendre j (domain ! i)
                  else legendre_polynomial j (domain ! i)),
         matrix_of (length domain) (nat (max 1 degree))
           (\<lambda>i j. if out_of_range_pred (domain ! i) then 0
                  else if 0 < degree then normalized_legendre_derivative j (domain ! i)
                  else legendre_derivative j (domain ! i)))"
proof -
  let ?r = "length domain" and ?c = "nat (max 1 degree)"
  let ?rows = "find_indices domain out_of_range_pred"
  let ?N = "normalizing_state domain ?c (nat degree)"
  have c: "?c = nat (max degree 1)" "0 + nat degree \<le> ?c" by simp_all
  have rows: "\<forall>i\<in>set ?rows. i < ?r" by (simp add: find_indices_set)
  have init: "initial_columns domain degree =
    Inr (fst (remaining_state domain ?c 0), fst (snd (remaining_state domain ?c 0)))"
    by (simp add: initial_columns_explicit remaining_state_def numeral_2_eq_2)
  have norm: "normalizing_loop domain (normalizing_state domain ?c 0) [0..<nat degree] = Inr ?N"
    using normalizing_loop_explicit [OF c(2), of domain] by simp
  have zero: "zero_loop degree ?N ?rows =
    Inr (matrix_of ?r ?c (\<lambda>i j. if i \<in> set ?rows then 0
           else if j < nat degree
           then legendre_polynomial j (domain ! i) * (1 / sqrt (2 / (2 * real j + 1)))
           else legendre_polynomial j (domain ! i)),
         matrix_of ?r ?c (\<lambda>i j. if i \<in> set ?rows then 0
           else if j < nat degree
           then legendre_derivative j (domain ! i) * (1 / sqrt (2 / (2 * real j + 1)))
           else legendre_derivative j (domain ! i)))"
    unfolding normalizing_state_def by (rule zero_loop_explicit [OF c(1) rows])
  have "legendre domain degree =
    Inr (scaling degree
      (matrix_of ?r ?c (\<lambda>i j. if i \<in> set ?rows then 0
           else if j < nat degree
           then legendre_polynomial j (domain ! i) * (1 / sqrt (2 / (2 * real j + 1)))
           else legendre_polynomial j (domain ! i)),
       matrix_of ?r ?c (\<lambda>i j. if i \<in> set ?rows then 0
           else if j < nat degree
           then legendre_derivative j (domain ! i) * (1 / sqrt (2 / (2 * real j + 1)))
           else legendre_derivative j (domain ! i))))"
    using assms
    by (simp only: legendre_def init on_success_Inr remaining_columns_explicit [OF refl] norm zero
        not_not if_True if_False length_greater_0_conv simp_thms)
  also have "\<dots> = Inr (matrix_of ?r ?c
           (\<lambda>i j. if out_of_range_pred (domain ! i) then 0
                  else if 0 < degree then normalized_legendre j (domain ! i)
                  else legendre_polynomial j (domain ! i)),
         matrix_of ?r ?c
           (\<lambda>i j. if out_of_range_pred (domain ! i) then 0
                  else if 0 < degree then normalized_legendre_derivative j (domain ! i)
                  else legendre_derivative j (domain ! i)))"
  proof (cases "degree > 0")
    case True
    then have j: "j < ?c \<Longrightarrow> j < nat degree" for j by simp
    have s: "scaling degree (A, B) = (matrix_times A 1, matrix_times B 1)" for A B
      using True by (simp add: scaling_def int_of_floating_sqrt_2)
    show ?thesis
      unfolding s matrix_times_of sum.inject prod.inject
      by (intro conjI matrix_of_cong)
         (simp_all add: j True find_indices_set normalized_legendre_def normalized_legendre_derivative_def)
  next
    case False
    then have j: "j < ?c \<Longrightarrow> j = 0" for j by simp
    have s: "scaling degree (A, B) = (A, B)" for A B
      using False by (simp add: scaling_def)
    show ?thesis
      unfolding s sum.inject prod.inject
    proof (intro conjI matrix_of_cong)
      fix i j assume "i < ?r" "j < ?c"
      then have "j = 0" "nat degree = 0" using False j by simp_all
      then show "(if i \<in> set ?rows then 0
           else if j < nat degree
           then legendre_polynomial j (domain ! i) * (1 / sqrt (2 / (2 * real j + 1)))
           else legendre_polynomial j (domain ! i)) =
         (if out_of_range_pred (domain ! i) then 0
                  else if 0 < degree then normalized_legendre j (domain ! i)
                  else legendre_polynomial j (domain ! i))"
        using \<open>i < ?r\<close> False by (simp add: find_indices_set)
    next
      fix i j assume "i < ?r" "j < ?c"
      then have "j = 0" "nat degree = 0" using False j by simp_all
      then show "(if i \<in> set ?rows then 0
           else if j < nat degree
           then legendre_derivative j (domain ! i) * (1 / sqrt (2 / (2 * real j + 1)))
           else legendre_derivative j (domain ! i)) =
         (if out_of_range_pred (domain ! i) then 0
                  else if 0 < degree then normalized_legendre_derivative j (domain ! i)
                  else legendre_derivative j (domain ! i))"
        using \<open>i < ?r\<close> False by (simp add: find_indices_set)
    qed
  qed
  finally show ?thesis .
qed

text \<open>
  What \<^verbatim>\<open>legendre\<close> returns on every input that passes its two assertions: two
  matrices of \<^verbatim>\<open>domain.size()\<close> rows and \<^verbatim>\<open>max(1, degree)\<close> columns; every row of a
  point strictly outside \<open>[-1, 1]\<close> is zero in both; every other row holds, for
  \<open>0 < degree\<close>, the normalized values and derivatives as the normalizing loop left
  them, the factor of the scaling being 1.
\<close>

lemma legendre_rows:
  assumes "0 \<le> degree" and "domain \<noteq> []"
  shows "\<exists>P P'. legendre domain degree = Inr (P, P') \<and>
      nrows P = length domain \<and> ncols P = nat (max 1 degree) \<and>
      nrows P' = length domain \<and> ncols P' = nat (max 1 degree) \<and>
      (\<forall>i<length domain. \<forall>j<nat (max 1 degree).
         if domain ! i < - 1 \<or> 1 < domain ! i
         then mat_get P i j = 0 \<and> mat_get P' i j = 0
         else if 0 < degree
         then mat_get P i j = normalized_legendre j (domain ! i) \<and>
              mat_get P' i j = normalized_legendre_derivative j (domain ! i)
         else mat_get P i j = legendre_polynomial j (domain ! i) \<and>
              mat_get P' i j = legendre_derivative j (domain ! i))"
  unfolding legendre_explicit [OF assms]
  by (intro exI conjI, rule refl) (simp_all add: out_of_range_pred_def)

subsection \<open>The reference polynomials and runs of the model\<close>

text \<open>The recurrence taken for the derivatives does give the derivatives of the polynomials.\<close>

lemma legendre_derivative_correct:
  "((\<lambda>x. legendre_polynomial n x) has_field_derivative legendre_derivative n x) (at x)"
proof (induction n x rule: legendre_polynomial.induct)
  case (1 x)
  show ?case by simp
next
  case (2 x)
  show ?case by simp
next
  case (3 n x)
  have "((\<lambda>x. (2 * real (Suc n) + 1) * x * legendre_polynomial (Suc n) x
        - real (Suc n) * legendre_polynomial n x) has_field_derivative
     (2 * real (Suc n) + 1) * (x * legendre_derivative (Suc n) x + legendre_polynomial (Suc n) x)
        - real (Suc n) * legendre_derivative n x) (at x)"
    by (rule derivative_eq_intros 3 refl | simp add: algebra_simps)+
  from DERIV_cdivide [OF this, of "real (Suc n) + 1"]
  show ?case by (simp only: legendre_polynomial.simps legendre_derivative.simps)
qed


text \<open>
  A run at degree 0, where the guard \<^verbatim>\<open>degree > 0\<close> skips the scaling and the
  normalizing loop has no iteration. The first point, 2, is out of range.
\<close>

lemma legendre_degree_zero:
  "legendre [2, 1 / 2] 0 =
     Inr (\<lparr>nrows = 2, ncols = 1, data = [0, 1]\<rparr>, \<lparr>nrows = 2, ncols = 1, data = [0, 0]\<rparr>)"
  by (simp add: legendre_def initial_columns_def remaining_columns_def
      find_indices_def out_of_range_pred_def scaling_def update_col_def update_row_def
      matrix_new_def mat_set_def on_success_def Let_def numeral_2_eq_2)



end
